theory Spec2Isabelle
  imports Main
begin

section \<open>Python values shared by both scripts\<close>

text \<open>
  The two scripts, \<^verbatim>\<open>listen-minechat.py\<close> and \<^verbatim>\<open>send-minechat.py\<close>, are embedded as
  functions over an explicit world state. Everything the scripts obtain from outside
  (the peer's lines, the clock, the outcome of a file write, the operator's input, the
  library functions \<^verbatim>\<open>bytes.decode\<close> and \<^verbatim>\<open>json.loads\<close>) is a parameter or a
  script consumed in order. The Cyrillic console messages of the source are written
  in Latin transliteration.
\<close>

text \<open>Exception classes the scripts name or can receive, and a raised exception with
  its \<^verbatim>\<open>str(e)\<close>. \<^verbatim>\<open>IncompleteReadError\<close> carries its \<^verbatim>\<open>partial\<close> bytes.\<close>

datatype exn_class =
    AsyncioTimeoutError
  | ConnectionRefusedError
  | ConnectionResetError
  | OSError
  | EOFError
  | UnicodeDecodeError
  | JSONDecodeError
  | KeyError
  | TypeError
  | ValueError
  | KeyboardInterrupt
  | CancelledError
  | SystemExit

datatype exn = Exn exn_class string | IncompleteReadError string

text \<open>The subclass tests the \<^verbatim>\<open>except\<close> clauses make.\<close>

fun is_TimeoutError :: "exn \<Rightarrow> bool" where
  "is_TimeoutError (Exn c _) = (c = AsyncioTimeoutError)"
| "is_TimeoutError (IncompleteReadError _) = False"

fun partial_of :: "exn \<Rightarrow> string option" where
  "partial_of (IncompleteReadError p) = Some p"
| "partial_of (Exn _ _) = None"

fun is_ConnectionRefusedError :: "exn \<Rightarrow> bool" where
  "is_ConnectionRefusedError (Exn c _) = (c = ConnectionRefusedError)"
| "is_ConnectionRefusedError (IncompleteReadError _) = False"

fun is_ConnectionError :: "exn \<Rightarrow> bool" where
  "is_ConnectionError (Exn c _) = (c = ConnectionRefusedError \<or> c = ConnectionResetError)"
| "is_ConnectionError (IncompleteReadError _) = False"

fun is_OSError :: "exn \<Rightarrow> bool" where
  "is_OSError (Exn c m) = (c = OSError \<or> is_ConnectionError (Exn c m))"
| "is_OSError (IncompleteReadError _) = False"

fun is_Exception :: "exn \<Rightarrow> bool" where
  "is_Exception (Exn c _) = (c \<noteq> KeyboardInterrupt \<and> c \<noteq> CancelledError \<and> c \<noteq> SystemExit)"
| "is_Exception (IncompleteReadError _) = True"

fun is_KeyboardInterrupt :: "exn \<Rightarrow> bool" where
  "is_KeyboardInterrupt (Exn c _) = (c = KeyboardInterrupt)"
| "is_KeyboardInterrupt (IncompleteReadError _) = False"

fun is_SystemExit :: "exn \<Rightarrow> bool" where
  "is_SystemExit (Exn c _) = (c = SystemExit)"
| "is_SystemExit (IncompleteReadError _) = False"

fun exn_str :: "exn \<Rightarrow> string" where
  "exn_str (Exn _ m) = m"
| "exn_str (IncompleteReadError p) = p"

subsection \<open>Strings\<close>

text \<open>\<^verbatim>\<open>str.isspace\<close> on the code points below 256, and the three strip methods.\<close>

definition isspace :: "char \<Rightarrow> bool" where
  "isspace c = (c \<in> set [CHR 0x09, CHR 0x0A, CHR 0x0B, CHR 0x0C, CHR 0x0D,
                          CHR 0x1C, CHR 0x1D, CHR 0x1E, CHR 0x1F, CHR 0x20,
                          CHR 0x85, CHR 0xA0])"

definition lstrip :: "string \<Rightarrow> string" where
  "lstrip s = dropWhile isspace s"

definition rstrip :: "string \<Rightarrow> string" where
  "rstrip s = rev (dropWhile isspace (rev s))"

definition strip :: "string \<Rightarrow> string" where
  "strip s = rstrip (lstrip s)"

text \<open>Decimal rendering of an integer, as \<^verbatim>\<open>str(int)\<close> and \<^verbatim>\<open>%d\<close> give it.\<close>

definition digit :: "nat \<Rightarrow> char" where
  "digit n = ''0123456789'' ! (n mod 10)"

fun str_nat :: "nat \<Rightarrow> string" where
  "str_nat n = (if n < 10 then [digit n] else str_nat (n div 10) @ [digit n])"

definition str_int :: "int \<Rightarrow> string" where
  "str_int i = (if i < 0 then CHR ''-'' # str_nat (nat (- i)) else str_nat (nat i))"

subsection \<open>Transports and the observable trace\<close>

text \<open>
  What the peer does on one connection: the results of the successive
  \<^verbatim>\<open>readline\<close> calls (a line with its terminator, or an exception; the flag says
  whether the event loop has dropped the transport with it), and whether the transport
  is dropped when the peer ends the stream. Reading past the feed is end of stream.
\<close>

datatype read_item = Line string | Raises exn bool

record server =
  feed :: "read_item list"
  eof_closes :: bool

datatype connect_result = Refused exn | Accepted server

text \<open>The observable actions, in the order they happen.\<close>

datatype event =
    Connect
  | Opened nat
  | Lost nat
  | Closed nat
  | Sent nat string
  | Recv nat string
  | Sleep nat
  | Print string
  | Prompt string

record world =
  trace :: "event list"

text \<open>\<^verbatim>\<open>writer.is_closing()\<close>: the transport was closed by the script or dropped.\<close>

definition is_closing :: "event list \<Rightarrow> nat \<Rightarrow> bool" where
  "is_closing tr n = (Closed n \<in> set tr \<or> Lost n \<in> set tr)"

definition emit :: "event \<Rightarrow> ('a world_scheme) \<Rightarrow> ('a world_scheme)" where
  "emit e st = st\<lparr>trace := trace st @ [e]\<rparr>"

section \<open>The listener: \<^verbatim>\<open>listen-minechat.py\<close>\<close>

subsection \<open>\<^verbatim>\<open>ChatLogger\<close>\<close>

record datetime =
  dt_year :: nat
  dt_month :: nat
  dt_day :: nat
  dt_hour :: nat
  dt_minute :: nat

text \<open>\<^verbatim>\<open>strftime("[%d.%m.%y %H:%M]")\<close>: every field zero-padded to two digits.\<close>

definition two_digits :: "nat \<Rightarrow> string" where
  "two_digits n = [digit (n div 10), digit n]"

definition strftime_log :: "datetime \<Rightarrow> string" where
  "strftime_log t =
     ''['' @ two_digits (dt_day t) @ ''.'' @ two_digits (dt_month t) @ ''.''
       @ two_digits (dt_year t mod 100) @ '' '' @ two_digits (dt_hour t) @ '':''
       @ two_digits (dt_minute t) @ '']''"

text \<open>
  The listener's surroundings: \<open>clock k\<close> is what \<^verbatim>\<open>datetime.now()\<close> returns in the
  \<open>k\<close>-th call of \<^verbatim>\<open>log_message\<close>; \<open>disk k\<close> is the text of the exception that
  opening or writing the history file raises in that call, if it raises;
  \<open>decode_ignore\<close> is \<^verbatim>\<open>bytes.decode('utf-8', errors='ignore')\<close>; \<open>create_fails\<close>
  is the exception raised when \<^verbatim>\<open>ensure_log_file\<close> creates the file, if any.
\<close>

record listen_env =
  clock :: "nat \<Rightarrow> datetime"
  disk :: "nat \<Rightarrow> string option"
  decode_ignore :: "string \<Rightarrow> string"
  create_fails :: "exn option"

record address =
  host :: string
  port :: int

record listen_args = address +
  history_path :: string

text \<open>
  The listener's state: the content of the history file (\<open>None\<close> while the file does
  not exist), the number of \<^verbatim>\<open>log_message\<close> calls made, the transport bound to the
  variable \<^verbatim>\<open>writer\<close>, and the number of transports opened so far.
\<close>

record listener = world +
  history :: "string option"
  ticks :: nat
  writer :: "nat option"
  opened :: nat

definition content :: "string option \<Rightarrow> string" where
  "content f = (case f of None \<Rightarrow> [] | Some s \<Rightarrow> s)"

definition ensure_log_file :: "listen_env \<Rightarrow> listener \<Rightarrow> exn option \<times> listener" where
  "ensure_log_file env st =
     (if history st = None then
        (case create_fails env of
           Some e \<Rightarrow> (Some e, st)
         | None \<Rightarrow> (None, st\<lparr>history := Some []\<rparr>))
      else (None, st))"

definition log_entry :: "listen_env \<Rightarrow> nat \<Rightarrow> string \<Rightarrow> string" where
  "log_entry env k message = strftime_log (clock env k) @ '' '' @ message"

definition write_error_msg :: "string \<Rightarrow> string" where
  "write_error_msg e = ''Oshibka zapisi v fail: '' @ e"

definition log_message :: "listen_env \<Rightarrow> string \<Rightarrow> listener \<Rightarrow> listener" where
  "log_message env message st =
     (let entry = log_entry env (ticks st) message;
          st1 = (emit (Print entry) st)\<lparr>ticks := Suc (ticks st)\<rparr>
      in case disk env (ticks st) of
           None \<Rightarrow> st1\<lparr>history := Some (content (history st1) @ entry @ [CHR 0x0A])\<rparr>
         | Some e \<Rightarrow> emit (Print (write_error_msg e)) st1)"

subsection \<open>\<^verbatim>\<open>minechat_client\<close>\<close>

definition endpoint :: "('a address_scheme) \<Rightarrow> string" where
  "endpoint args = host args @ '':'' @ str_int (port args)"

definition connecting_msg :: "listen_args \<Rightarrow> string" where
  "connecting_msg args = ''Podklyuchenie k '' @ endpoint args @ ''...''"

definition established_msg :: "listen_args \<Rightarrow> string" where
  "established_msg args = ''Soedinenie ustanovleno s '' @ endpoint args"

definition closed_without_data_msg :: string where
  "closed_without_data_msg = ''Soedinenie zakryto serverom bez otpravki dannykh''"

definition timeout_msg :: "listen_args \<Rightarrow> string" where
  "timeout_msg args = ''Taimaut podklyucheniya k '' @ endpoint args"

definition retry_msg :: string where
  "retry_msg = ''Popytka perepodklyucheniya cherez 5 sekund...''"

definition closing_msg :: string where
  "closing_msg = ''Zakrytie soedineniya...''"

text \<open>End of stream on transport \<open>n\<close>: the event loop drops the transport or keeps it.\<close>

definition end_of_stream :: "nat \<Rightarrow> bool \<Rightarrow> ('a world_scheme) \<Rightarrow> ('a world_scheme)" where
  "end_of_stream n eofc st = (if eofc then emit (Lost n) st else st)"

text \<open>
  \<^verbatim>\<open>async for line in reader\<close> with its body. The iterator stops when
  \<^verbatim>\<open>readline\<close> returns no bytes. The result is the exception that left the loop, or
  \<^verbatim>\<open>message_count\<close>.
\<close>

fun read_loop ::
  "listen_env \<Rightarrow> nat \<Rightarrow> bool \<Rightarrow> read_item list \<Rightarrow> nat \<Rightarrow> listener \<Rightarrow> (exn + nat) \<times> listener"
where
  "read_loop env n eofc [] message_count st = (Inr message_count, end_of_stream n eofc st)"
| "read_loop env n eofc (Raises e lost # rest) message_count st =
     (Inl e, if lost then emit (Lost n) st else st)"
| "read_loop env n eofc (Line l # rest) message_count st =
     (if l = [] then (Inr message_count, end_of_stream n eofc st)
      else
        let st1 = emit (Recv n l) st;
            message = rstrip (decode_ignore env l)
        in if message \<noteq> []
           then read_loop env n eofc rest (message_count + 1) (log_message env message st1)
           else read_loop env n eofc rest message_count st1)"

text \<open>The body of the \<^verbatim>\<open>try\<close> statement, for one result of \<^verbatim>\<open>open_connection\<close>.\<close>

definition try_body ::
  "listen_env \<Rightarrow> listen_args \<Rightarrow> connect_result \<Rightarrow> listener \<Rightarrow> (exn + unit) \<times> listener"
where
  "try_body env args c st =
     (let st1 = log_message env (connecting_msg args) st;
          st2 = emit Connect st1
      in case c of
           Refused e \<Rightarrow> (Inl e, st2)
         | Accepted srv \<Rightarrow>
             (let n = opened st2;
                  st3 = (emit (Opened n) st2)\<lparr>writer := Some n, opened := Suc n\<rparr>;
                  st4 = log_message env (established_msg args) st3
              in case read_loop env n (eof_closes srv) (feed srv) 0 st4 of
                   (Inl e, st5) \<Rightarrow> (Inl e, st5)
                 | (Inr message_count, st5) \<Rightarrow>
                     (Inr (),
                      if message_count = 0
                      then log_message env closed_without_data_msg st5
                      else st5)))"

text \<open>How control leaves the loop body: to the next iteration, or with an exception
  no clause has caught.\<close>

datatype flow = FallThrough | Continue | Propagate exn

definition retry_after_delay :: "listen_env \<Rightarrow> string \<Rightarrow> listener \<Rightarrow> flow \<times> listener" where
  "retry_after_delay env msg st =
     (Continue, emit (Sleep 5) (log_message env retry_msg (log_message env msg st)))"

text \<open>The \<^verbatim>\<open>except\<close> clauses, in the order of the source.\<close>

definition except_clauses ::
  "listen_env \<Rightarrow> listen_args \<Rightarrow> exn \<Rightarrow> listener \<Rightarrow> flow \<times> listener"
where
  "except_clauses env args e st =
     (if is_TimeoutError e
      then retry_after_delay env (timeout_msg args) st
      else case partial_of e of
        Some partial \<Rightarrow>
          (FallThrough, log_message env (''Nepolnoe chtenie: '' @ decode_ignore env partial) st)
      | None \<Rightarrow>
          if is_ConnectionRefusedError e \<or> is_OSError e
          then retry_after_delay env (''Oshibka podklyucheniya: '' @ exn_str e) st
          else if is_ConnectionError e \<or> is_OSError e
          then retry_after_delay env (''Poteryano soedinenie: '' @ exn_str e) st
          else if is_Exception e
          then retry_after_delay env (''Neozhidannaya oshibka: '' @ exn_str e) st
          else (Propagate e, st))"

definition finally_clause :: "listen_env \<Rightarrow> listener \<Rightarrow> listener" where
  "finally_clause env st =
     (case writer st of
        None \<Rightarrow> st
      | Some n \<Rightarrow>
          if \<not> is_closing (trace st) n
          then emit (Closed n) (log_message env closing_msg st)
          else st)"

text \<open>One iteration of \<^verbatim>\<open>while True\<close>.\<close>

definition session ::
  "listen_env \<Rightarrow> listen_args \<Rightarrow> connect_result \<Rightarrow> listener \<Rightarrow> flow \<times> listener"
where
  "session env args c st =
     (case try_body env args c st of
        (Inr _, st1) \<Rightarrow> (FallThrough, finally_clause env st1)
      | (Inl e, st1) \<Rightarrow>
          (case except_clauses env args e st1 of
             (fl, st2) \<Rightarrow> (fl, finally_clause env st2)))"

text \<open>
  The loop, run against the results of the successive \<^verbatim>\<open>open_connection\<close> calls.
  The loop has no exit of its own: the result is \<open>Some e\<close> when an exception has left
  it, and \<open>None\<close> when the script is used up and the loop is about to connect again.
\<close>

fun minechat_loop ::
  "listen_env \<Rightarrow> listen_args \<Rightarrow> connect_result list \<Rightarrow> listener \<Rightarrow> exn option \<times> listener"
where
  "minechat_loop env args [] st = (None, st)"
| "minechat_loop env args (c # cs) st =
     (case session env args c st of
        (Propagate e, st1) \<Rightarrow> (Some e, st1)
      | (_, st1) \<Rightarrow> minechat_loop env args cs st1)"

definition start :: "string option \<Rightarrow> listener" where
  "start h = \<lparr>trace = [], history = h, ticks = 0, writer = None, opened = 0\<rparr>"

definition minechat_client ::
  "listen_env \<Rightarrow> listen_args \<Rightarrow> connect_result list \<Rightarrow> listener \<Rightarrow> exn option \<times> listener"
where
  "minechat_client env args script st =
     (case ensure_log_file env st of
        (Some e, st1) \<Rightarrow> (Some e, st1)
      | (None, st1) \<Rightarrow> minechat_loop env args script (st1\<lparr>writer := None\<rparr>))"

subsection \<open>\<^verbatim>\<open>parse_arguments\<close> and \<^verbatim>\<open>main\<close>\<close>

text \<open>
  The command line as \<^verbatim>\<open>argparse\<close> has scanned it: the value of each flag that was
  given. \<open>getenv\<close> is the process environment and \<open>to_int\<close> is \<^verbatim>\<open>int\<close> on a string
  (\<open>None\<close> for \<^verbatim>\<open>ValueError\<close>). A process ends at start-up either through
  \<^verbatim>\<open>parser.error\<close>, which prints the usage and exits with status 2, or with the
  \<^verbatim>\<open>ValueError\<close> of a default that is computed before the command line is read.
\<close>

record flags =
  flag_host :: "string option"
  flag_port :: "string option"
  flag_file :: "string option"

datatype startup_error = UsageError string | DefaultError exn

definition getenv_default :: "(string \<Rightarrow> string option) \<Rightarrow> string \<Rightarrow> string \<Rightarrow> string" where
  "getenv_default getenv name d = (case getenv name of None \<Rightarrow> d | Some v \<Rightarrow> v)"

definition int_default ::
  "(string \<Rightarrow> int option) \<Rightarrow> (string \<Rightarrow> string option) \<Rightarrow> string \<Rightarrow> startup_error + int"
where
  "int_default to_int getenv name =
     (case getenv name of
        None \<Rightarrow> Inr 0
      | Some v \<Rightarrow>
          (case to_int v of
             None \<Rightarrow> Inl (DefaultError (Exn ValueError (''invalid literal for int(): '' @ v)))
           | Some i \<Rightarrow> Inr i))"

definition parse_port ::
  "(string \<Rightarrow> int option) \<Rightarrow> string option \<Rightarrow> int \<Rightarrow> startup_error + int"
where
  "parse_port to_int flag d =
     (case flag of
        None \<Rightarrow> Inr d
      | Some v \<Rightarrow>
          (case to_int v of
             None \<Rightarrow> Inl (UsageError (''argument --port: invalid int value: '' @ v))
           | Some i \<Rightarrow> Inr i))"

definition parse_arguments ::
  "(string \<Rightarrow> int option) \<Rightarrow> (string \<Rightarrow> string option) \<Rightarrow> flags \<Rightarrow> startup_error + listen_args"
where
  "parse_arguments to_int getenv argv =
     (let default_host = getenv_default getenv ''MINECHAT_HOST'' [] in
      case int_default to_int getenv ''MINECHAT_PORT'' of
        Inl err \<Rightarrow> Inl err
      | Inr default_port \<Rightarrow>
          (let default_history = getenv_default getenv ''MINECHAT_HISTORY'' [];
               args_host = (case flag_host argv of None \<Rightarrow> default_host | Some v \<Rightarrow> v);
               args_history = (case flag_file argv of None \<Rightarrow> default_history | Some v \<Rightarrow> v)
           in case parse_port to_int (flag_port argv) default_port of
                Inl err \<Rightarrow> Inl err
              | Inr args_port \<Rightarrow>
                  if args_host = []
                  then Inl (UsageError ''Khost obyazatelen. Ispolzuite --host ili peremennuyu MINECHAT_HOST'')
                  else if args_port = 0
                  then Inl (UsageError ''Port obyazatelen. Ispolzuite --port ili peremennuyu MINECHAT_PORT'')
                  else if args_history = []
                  then Inl (UsageError ''Fail istorii obyazatelen. Ispolzuite --history ili peremennuyu MINECHAT_HISTORY'')
                  else Inr \<lparr>host = args_host, port = args_port, history_path = args_history\<rparr>))"

text \<open>How a process stands at the end of a run: the status it exited with, or still
  inside its loop when the script of the run is used up.\<close>

datatype ending = Exit nat | StillRunning

definition exit_status :: "startup_error \<Rightarrow> nat" where
  "exit_status err = (case err of UsageError _ \<Rightarrow> 2 | DefaultError _ \<Rightarrow> 1)"

definition banner :: "listen_args \<Rightarrow> listener \<Rightarrow> listener" where
  "banner args st =
     emit (Print (replicate 50 CHR ''=''))
       (emit (Print ''Nazhmite Ctrl+C dlya zaversheniya'')
         (emit (Print (''  Fail istorii: '' @ history_path args))
           (emit (Print (''  Port: '' @ str_int (port args)))
             (emit (Print (''  Khost: '' @ host args))
               (emit (Print ''Zapusk slushatelya chata:'') st)))))"

text \<open>
  \<^verbatim>\<open>main\<close> of the listener. A start-up error ends the process before anything else is
  done. An exception that leaves \<^verbatim>\<open>minechat_client\<close> is reported when it is
  \<^verbatim>\<open>KeyboardInterrupt\<close> or derives from \<^verbatim>\<open>Exception\<close>, and then \<^verbatim>\<open>main\<close> returns;
  \<^verbatim>\<open>SystemExit\<close>, raised with status 0 by the signal handler, ends the process as
  well; any other one ends it with a traceback.
\<close>

definition main ::
  "(string \<Rightarrow> int option) \<Rightarrow> (string \<Rightarrow> string option) \<Rightarrow> flags \<Rightarrow> listen_env \<Rightarrow>
   connect_result list \<Rightarrow> listener \<Rightarrow> ending \<times> listener"
where
  "main to_int getenv argv env script st =
     (case parse_arguments to_int getenv argv of
        Inl err \<Rightarrow> (Exit (exit_status err), st)
      | Inr args \<Rightarrow>
          (case minechat_client env args script (banner args st) of
             (None, st1) \<Rightarrow> (StillRunning, st1)
           | (Some e, st1) \<Rightarrow>
               if is_KeyboardInterrupt e
               then (Exit 0, emit (Print ''Programma zavershena polzovatelem'') st1)
               else if is_Exception e
               then (Exit 0, emit (Print (''Kriticheskaya oshibka: '' @ exn_str e)) st1)
               else if is_SystemExit e then (Exit 0, st1)
               else (Exit 1, st1)))"

section \<open>The sender: \<^verbatim>\<open>send-minechat.py\<close>\<close>

subsection \<open>Values and surroundings\<close>

text \<open>What \<^verbatim>\<open>json.loads\<close> returns.\<close>

datatype json =
    JNull
  | JBool bool
  | JNumber int
  | JString string
  | JArray "json list"
  | JObject "(string \<times> json) list"

text \<open>
  The sender's surroundings: \<open>decode_strict\<close> is \<^verbatim>\<open>bytes.decode('utf-8')\<close> (\<open>None\<close>
  for \<^verbatim>\<open>UnicodeDecodeError\<close>), \<open>json_loads\<close> is \<^verbatim>\<open>json.loads\<close> (\<open>None\<close> for
  \<^verbatim>\<open>JSONDecodeError\<close>; an object comes with its keys distinct), \<open>py_repr\<close> is
  \<^verbatim>\<open>str\<close> on a value that is not a string, and the last two are the exceptions
  that opening the hash file for reading and for writing raises, if any.
\<close>

record send_env =
  decode_strict :: "string \<Rightarrow> string option"
  json_loads :: "string \<Rightarrow> json option"
  py_repr :: "json \<Rightarrow> string"
  hash_read_fails :: "string option"
  hash_write_fails :: "string option"

record send_args = address +
  hash_file :: string

text \<open>What the operator does at one \<^verbatim>\<open>input\<close> call: type a line, or press Ctrl-C.
  With nothing left, standard input is at its end.\<close>

datatype input_item = Typed string | Interrupt

text \<open>
  The sender's state: for every transport opened what the peer still has to say on it,
  the results of the \<^verbatim>\<open>open_connection\<close> calls to come, the operator's inputs to
  come, the content of the hash file (\<open>None\<close> while it does not exist), and the two
  attributes \<^verbatim>\<open>account_hash\<close> and \<^verbatim>\<open>nickname\<close> of the \<^verbatim>\<open>MinechatSender\<close>.
\<close>

record sender = world +
  conns :: "server list"
  upcoming :: "connect_result list"
  stdin :: "input_item list"
  stored_hash :: "string option"
  account_hash :: "json option"
  nickname :: "json option"

text \<open>A step of the sender returns a value or raises, and leaves a state either way.\<close>

type_synonym 'a step = "sender \<Rightarrow> (exn + 'a) \<times> sender"

definition and_then :: "'a step \<Rightarrow> ('a \<Rightarrow> 'b step) \<Rightarrow> 'b step" where
  "and_then m f st = (case m st of (Inl e, st1) \<Rightarrow> (Inl e, st1) | (Inr x, st1) \<Rightarrow> f x st1)"

definition return :: "'a \<Rightarrow> 'a step" where
  "return x st = (Inr x, st)"

definition print :: "string \<Rightarrow> unit step" where
  "print s st = (Inr (), emit (Print s) st)"

subsection \<open>The library calls\<close>

definition open_connection :: "nat step" where
  "open_connection st =
     (let st1 = emit Connect st
      in case upcoming st1 of
           [] \<Rightarrow> (Inl (Exn ConnectionRefusedError ''Connect call failed''), st1)
         | Refused e # rest \<Rightarrow> (Inl e, st1\<lparr>upcoming := rest\<rparr>)
         | Accepted srv # rest \<Rightarrow>
             (let n = length (conns st1)
              in (Inr n, (emit (Opened n) st1)\<lparr>upcoming := rest, conns := conns st1 @ [srv]\<rparr>)))"

definition rest_of_feed :: "nat \<Rightarrow> read_item list \<Rightarrow> sender \<Rightarrow> sender" where
  "rest_of_feed n rest st = st\<lparr>conns := (conns st)[n := (conns st ! n)\<lparr>feed := rest\<rparr>]\<rparr>"

text \<open>\<^verbatim>\<open>reader.readline()\<close> on transport \<open>n\<close>; at end of stream it returns no bytes.\<close>

definition readline :: "nat \<Rightarrow> string step" where
  "readline n st =
     (case feed (conns st ! n) of
        [] \<Rightarrow> (Inr [], end_of_stream n (eof_closes (conns st ! n)) (emit (Recv n []) st))
      | Line l # rest \<Rightarrow> (Inr l, rest_of_feed n rest (emit (Recv n l) st))
      | Raises e lost # rest \<Rightarrow>
          (Inl e, rest_of_feed n rest (if lost then emit (Lost n) st else st)))"

text \<open>\<^verbatim>\<open>writer.write(data)\<close> and \<^verbatim>\<open>await writer.drain()\<close>: \<^verbatim>\<open>drain\<close> raises once the
  connection is lost.\<close>

definition write_drain :: "nat \<Rightarrow> string \<Rightarrow> unit step" where
  "write_drain n data st =
     (if is_closing (trace st) n
      then (Inl (Exn ConnectionResetError ''Connection lost''), st)
      else (Inr (), emit (Sent n data) st))"

text \<open>\<^verbatim>\<open>writer.close()\<close> and \<^verbatim>\<open>await writer.wait_closed()\<close>.\<close>

definition close :: "nat \<Rightarrow> unit step" where
  "close n st = (Inr (), emit (Closed n) st)"

definition py_input :: "string \<Rightarrow> string step" where
  "py_input prompt st =
     (let st1 = emit (Prompt prompt) st
      in case stdin st1 of
           [] \<Rightarrow> (Inl (Exn EOFError ''EOF when reading a line''), st1)
         | Typed s # rest \<Rightarrow> (Inr s, st1\<lparr>stdin := rest\<rparr>)
         | Interrupt # rest \<Rightarrow> (Inl (Exn KeyboardInterrupt []), st1\<lparr>stdin := rest\<rparr>))"

definition decode :: "send_env \<Rightarrow> string \<Rightarrow> string step" where
  "decode env b st =
     (case decode_strict env b of
        None \<Rightarrow> (Inl (Exn UnicodeDecodeError ''invalid utf-8''), st)
      | Some s \<Rightarrow> (Inr s, st))"

text \<open>\<^verbatim>\<open>value[key]\<close> for a string key. The text of a \<^verbatim>\<open>KeyError\<close> is the key
  in quotes.\<close>

definition getitem :: "json \<Rightarrow> string \<Rightarrow> json step" where
  "getitem v key st =
     (case v of
        JObject kvs \<Rightarrow>
          (case map_of kvs key of
             None \<Rightarrow> (Inl (Exn KeyError ([CHR 0x27] @ key @ [CHR 0x27])), st)
           | Some x \<Rightarrow> (Inr x, st))
      | _ \<Rightarrow> (Inl (Exn TypeError ''not subscriptable by a string''), st))"

definition py_str :: "send_env \<Rightarrow> json \<Rightarrow> string" where
  "py_str env v = (case v of JString s \<Rightarrow> s | _ \<Rightarrow> py_repr env v)"

text \<open>The truth value of an attribute in a condition.\<close>

definition truthy :: "json option \<Rightarrow> bool" where
  "truthy v =
     (case v of
        None \<Rightarrow> False
      | Some JNull \<Rightarrow> False
      | Some (JBool b) \<Rightarrow> b
      | Some (JNumber i) \<Rightarrow> i \<noteq> 0
      | Some (JString s) \<Rightarrow> s \<noteq> []
      | Some (JArray xs) \<Rightarrow> xs \<noteq> []
      | Some (JObject kvs) \<Rightarrow> kvs \<noteq> [])"

subsection \<open>\<^verbatim>\<open>MinechatSender\<close>\<close>

definition load_hash :: "send_env \<Rightarrow> sender \<Rightarrow> bool \<times> sender" where
  "load_hash env st =
     (case stored_hash st of
        None \<Rightarrow> (False, st)
      | Some text \<Rightarrow>
          (case hash_read_fails env of
             Some e \<Rightarrow> (False, emit (Print (''Oshibka zagruzki hash: '' @ e)) st)
           | None \<Rightarrow>
               if strip text \<noteq> []
               then (True, emit (Print (''Zagruzhen hash: '' @ strip text))
                             (st\<lparr>account_hash := Some (JString (strip text))\<rparr>))
               else (False, st)))"

text \<open>Opening the file for writing empties it; writing a value that is not a string
  raises \<^verbatim>\<open>TypeError\<close> after that. Both exceptions are caught here.\<close>

definition save_hash :: "send_env \<Rightarrow> send_args \<Rightarrow> json \<Rightarrow> unit step" where
  "save_hash env args hash_value st =
     (case hash_write_fails env of
        Some e \<Rightarrow> (Inr (), emit (Print (''Oshibka sokhraneniya hash: '' @ e)) st)
      | None \<Rightarrow>
          (case hash_value of
             JString s \<Rightarrow>
               (Inr (), emit (Print (''Hash sokhranen v '' @ hash_file args))
                          (st\<lparr>stored_hash := Some s\<rparr>))
           | _ \<Rightarrow>
               (Inr (), emit (Print ''Oshibka sokhraneniya hash: write() argument must be str'')
                          (st\<lparr>stored_hash := Some []\<rparr>))))"

definition register_account :: "send_env \<Rightarrow> send_args \<Rightarrow> nat \<Rightarrow> (json \<times> json) step" where
  "register_account env args n =
     and_then (print ''Registratsiya novogo akkaunta...'') (\<lambda>_.
     and_then (readline n) (\<lambda>greeting.
     and_then (decode env greeting) (\<lambda>g.
     and_then (print (strip g)) (\<lambda>_.
     and_then (write_drain n ''\<newline>'') (\<lambda>_.
     and_then (readline n) (\<lambda>nickname_prompt.
     and_then (decode env nickname_prompt) (\<lambda>p.
     and_then (print (strip p)) (\<lambda>_.
     and_then (py_input ''Vvedite nikneim: '') (\<lambda>typed.
     and_then (return (if strip typed = [] then ''Anonymous'' else strip typed)) (\<lambda>nick.
     and_then (write_drain n (nick @ ''\<newline>'')) (\<lambda>_.
     and_then (readline n) (\<lambda>response.
     and_then (decode env response) (\<lambda>r.
     and_then (\<lambda>st. case json_loads env (strip r) of
                        None \<Rightarrow> (Inl (Exn JSONDecodeError ''Expecting value''), st)
                      | Some v \<Rightarrow> (Inr v, st)) (\<lambda>account_data.
     and_then (getitem account_data ''account_hash'') (\<lambda>h.
     and_then (getitem account_data ''nickname'') (\<lambda>nickname'.
     and_then (print (''Akkaunt sozdan: '' @ py_str env nickname')) (\<lambda>_.
     and_then (print (''Hash: '' @ py_str env h)) (\<lambda>_.
     and_then (save_hash env args h) (\<lambda>_.
     return (h, nickname'))))))))))))))))))))"

text \<open>Only \<^verbatim>\<open>JSONDecodeError\<close> is caught around the parse of the response.\<close>

definition login_with_hash :: "send_env \<Rightarrow> nat \<Rightarrow> bool step" where
  "login_with_hash env n =
     and_then (print ''Avtorizatsiya s sushchestvuyushchim hash...'') (\<lambda>_.
     and_then (readline n) (\<lambda>greeting.
     and_then (decode env greeting) (\<lambda>g.
     and_then (print (strip g)) (\<lambda>_.
     and_then (\<lambda>st. write_drain n
                 ((case account_hash st of None \<Rightarrow> ''None'' | Some h \<Rightarrow> py_str env h) @ ''\<newline>'') st)
       (\<lambda>_.
     and_then (readline n) (\<lambda>response.
     and_then (decode env response) (\<lambda>r.
       case json_loads env (strip r) of
         None \<Rightarrow>
           and_then (print ''Oshibka avtorizatsii, vozmozhno hash nevernyi'') (\<lambda>_. return False)
       | Some account_data \<Rightarrow>
           and_then (getitem account_data ''nickname'') (\<lambda>nickname'.
           and_then (\<lambda>st. (Inr (), st\<lparr>nickname := Some nickname'\<rparr>)) (\<lambda>_.
           and_then (print (''Avtorizatsiya uspeshna: '' @ py_str env nickname')) (\<lambda>_.
           return True))))))))))"

definition connect_and_auth :: "send_env \<Rightarrow> send_args \<Rightarrow> nat step" where
  "connect_and_auth env args =
     and_then (print (''Podklyuchenie k '' @ endpoint args @ ''...'')) (\<lambda>_.
     and_then open_connection (\<lambda>n.
     and_then (print ''Soedinenie ustanovleno'') (\<lambda>_.
     and_then (\<lambda>st. if truthy (account_hash st) then login_with_hash env n st
                     else (Inr False, st)) (\<lambda>authorised.
       if authorised then return n
       else
         and_then (close n) (\<lambda>_.
         and_then (print ''Perepodklyuchenie dlya registratsii...'') (\<lambda>_.
         and_then open_connection (\<lambda>n'.
         and_then (register_account env args n') (\<lambda>(h, nickname').
         and_then (\<lambda>st. (Inr (), st\<lparr>account_hash := Some h, nickname := Some nickname'\<rparr>)) (\<lambda>_.
         return n')))))))))"

definition send_message :: "send_env \<Rightarrow> nat \<Rightarrow> string \<Rightarrow> unit step" where
  "send_message env n message =
     and_then (write_drain n (message @ ''\<newline>'')) (\<lambda>_.
     and_then (readline n) (\<lambda>response.
     and_then (decode env response) (\<lambda>r.
     print (strip r))))"

text \<open>The two \<^verbatim>\<open>except\<close> clauses inside the \<^verbatim>\<open>while\<close> loop; both end the loop.\<close>

definition loop_except :: "exn \<Rightarrow> unit step" where
  "loop_except e st =
     (if is_KeyboardInterrupt e then (Inr (), st)
      else if is_Exception e
      then print (''Oshibka otpravki soobshcheniya: '' @ exn_str e) st
      else (Inl e, st))"

text \<open>The \<^verbatim>\<open>while True\<close> loop of \<^verbatim>\<open>interactive_mode\<close>. It ends at the latest when
  standard input does.\<close>

function interactive_loop :: "send_env \<Rightarrow> nat \<Rightarrow> unit step" where
  "interactive_loop env n st =
     (case py_input ''> '' st of
        (Inl e, st1) \<Rightarrow> loop_except e st1
      | (Inr typed, st1) \<Rightarrow>
          if strip typed = [] then (Inr (), st1)
          else
            (case send_message env n (strip typed) st1 of
               (Inl e, st2) \<Rightarrow> loop_except e st2
             | (Inr _, st2) \<Rightarrow> interactive_loop env n st2))"
  by pat_completeness auto
termination
proof (relation "measure (\<lambda>(env, n, st). length (stdin st))")
  show "wf (measure (\<lambda>(env, n, st). length (stdin st)))" by simp
next
  fix env :: send_env and n :: nat and st x st1 typed x' st2 u
  assume a: "(x, st1) = py_input ''> '' st" "x = Inr typed"
    and b: "(x', st2) = send_message env n (strip typed) st1"
  have e: "stdin (emit ev s) = stdin s" for ev and s :: sender
    by (simp add: emit_def)
  from a have "py_input ''> '' st = (Inr typed, st1)" by simp
  then have 1: "length (stdin st1) < length (stdin st)"
    by (auto simp add: py_input_def Let_def e split: list.splits input_item.splits)
  have w: "stdin (snd (write_drain n d s)) = stdin s" for d s
    by (simp add: write_drain_def e)
  have r: "stdin (snd (readline n s)) = stdin s" for s
    by (simp add: readline_def rest_of_feed_def end_of_stream_def e
        split: list.splits read_item.splits)
  have "stdin (snd (send_message env n (strip typed) st1)) = stdin st1"
    unfolding send_message_def and_then_def
    using w [of "strip typed @ ''\<newline>''" st1]
      r [of "snd (write_drain n (strip typed @ ''\<newline>'') st1)"]
    by (auto simp add: decode_def print_def e split: prod.splits sum.splits option.splits)
  with b have 2: "stdin st2 = stdin st1" by (metis snd_conv)
  from 1 2 show "((env, n, st2), (env, n, st)) \<in> measure (\<lambda>(env, n, st). length (stdin st))"
    by simp
qed

declare interactive_loop.simps [simp del]

text \<open>The \<^verbatim>\<open>except Exception\<close> clause and the \<^verbatim>\<open>finally\<close> clause of
  \<^verbatim>\<open>interactive_mode\<close>. The variable \<^verbatim>\<open>writer\<close> is bound only once
  \<^verbatim>\<open>connect_and_auth\<close> has returned.\<close>

definition mode_except :: "exn \<Rightarrow> sender \<Rightarrow> exn option \<times> sender" where
  "mode_except e st =
     (if is_Exception e
      then (None, emit (Print (''Oshibka podklyucheniya: '' @ exn_str e)) st)
      else (Some e, st))"

definition mode_finally :: "nat option \<Rightarrow> sender \<Rightarrow> sender" where
  "mode_finally w st =
     emit (Print ''Soedinenie zakryto'')
       (case w of
          None \<Rightarrow> st
        | Some n \<Rightarrow> if \<not> is_closing (trace st) n then emit (Closed n) st else st)"

definition welcome_and_loop :: "send_env \<Rightarrow> nat \<Rightarrow> unit step" where
  "welcome_and_loop env n =
     and_then (readline n) (\<lambda>welcome.
     and_then (decode env welcome) (\<lambda>w.
     and_then (print (strip w)) (\<lambda>_.
     and_then (print ''\<newline>Dobro pozhalovat v chat!'') (\<lambda>_.
     and_then (print ''Vvedite soobshchenie i nazhmite Enter dlya otpravki'') (\<lambda>_.
     and_then (print ''Vvedite pustuyu stroku dlya zaversheniya'') (\<lambda>_.
     and_then (print (replicate 50 CHR ''='')) (\<lambda>_.
     interactive_loop env n)))))))"

text \<open>The result is the exception that leaves \<^verbatim>\<open>interactive_mode\<close>, if one does.\<close>

definition interactive_mode :: "send_env \<Rightarrow> send_args \<Rightarrow> sender \<Rightarrow> exn option \<times> sender" where
  "interactive_mode env args st =
     (case connect_and_auth env args st of
        (Inl e, st1) \<Rightarrow>
          (case mode_except e st1 of (r, st2) \<Rightarrow> (r, mode_finally None st2))
      | (Inr n, st1) \<Rightarrow>
          (case welcome_and_loop env n st1 of
             (Inl e, st2) \<Rightarrow>
               (case mode_except e st2 of (r, st3) \<Rightarrow> (r, mode_finally (Some n) st3))
           | (Inr _, st2) \<Rightarrow> (None, mode_finally (Some n) st2)))"

subsection \<open>\<^verbatim>\<open>parse_arguments\<close> and \<^verbatim>\<open>main\<close> of the sender\<close>

definition parse_arguments_sender ::
  "(string \<Rightarrow> int option) \<Rightarrow> (string \<Rightarrow> string option) \<Rightarrow> flags \<Rightarrow> startup_error + send_args"
where
  "parse_arguments_sender to_int getenv argv =
     (let default_host = getenv_default getenv ''MINECHAT_HOST_WRITER'' [] in
      case int_default to_int getenv ''MINECHAT_PORT'' of
        Inl err \<Rightarrow> Inl err
      | Inr default_port \<Rightarrow>
          (let default_hash_file = getenv_default getenv ''MINECHAT_HASH'' [];
               args_host = (case flag_host argv of None \<Rightarrow> default_host | Some v \<Rightarrow> v);
               args_hash_file = (case flag_file argv of None \<Rightarrow> default_hash_file | Some v \<Rightarrow> v)
           in case parse_port to_int (flag_port argv) default_port of
                Inl err \<Rightarrow> Inl err
              | Inr args_port \<Rightarrow>
                  if args_host = []
                  then Inl (UsageError ''Khost obyazatelen. Ispolzuite --host ili peremennuyu MINECHAT_HOST'')
                  else if args_port = 0
                  then Inl (UsageError ''Port obyazatelen. Ispolzuite --port ili peremennuyu MINECHAT_PORT'')
                  else if args_hash_file = []
                  then Inl (UsageError ''Fail hash obyazatelen. Ispolzuite --hash-file ili peremennuyu MINECHAT_HASH'')
                  else Inr \<lparr>host = args_host, port = args_port, hash_file = args_hash_file\<rparr>))"

definition banner_sender :: "send_args \<Rightarrow> sender \<Rightarrow> sender" where
  "banner_sender args st =
     emit (Print (replicate 50 CHR ''=''))
       (emit (Print (''  Fail hash: '' @ hash_file args))
         (emit (Print (''  Port: '' @ str_int (port args)))
           (emit (Print (''  Khost: '' @ host args))
             (emit (Print ''Zapusk otpravitelya soobshchenii:'') st))))"

text \<open>
  \<^verbatim>\<open>main\<close> of the sender inside the handlers of the script's last lines:
  \<^verbatim>\<open>KeyboardInterrupt\<close> is reported and the script ends; an \<^verbatim>\<open>Exception\<close> is reported
  and the script exits with status 1; \<^verbatim>\<open>parser.error\<close> exits with status 2.
\<close>

definition main_sender ::
  "(string \<Rightarrow> int option) \<Rightarrow> (string \<Rightarrow> string option) \<Rightarrow> flags \<Rightarrow> send_env \<Rightarrow>
   sender \<Rightarrow> ending \<times> sender"
where
  "main_sender to_int getenv argv env st =
     (case parse_arguments_sender to_int getenv argv of
        Inl (UsageError m) \<Rightarrow> (Exit 2, st)
      | Inl (DefaultError e) \<Rightarrow>
          (Exit 1, emit (Print (''Kriticheskaya oshibka: '' @ exn_str e)) st)
      | Inr args \<Rightarrow>
          (let st1 = (banner_sender args st)\<lparr>account_hash := None, nickname := None\<rparr>;
               st2 = snd (load_hash env st1)
           in case interactive_mode env args st2 of
                (None, st3) \<Rightarrow> (Exit 0, st3)
              | (Some e, st3) \<Rightarrow>
                  if is_KeyboardInterrupt e
                  then (Exit 0, emit (Print ''\<newline>Programma zavershena polzovatelem'') st3)
                  else (Exit 1, st3)))"

definition sender_start ::
  "connect_result list \<Rightarrow> input_item list \<Rightarrow> string option \<Rightarrow> sender" where
  "sender_start script inputs file =
     \<lparr>trace = [], conns = [], upcoming = script, stdin = inputs, stored_hash = file,
      account_hash = None, nickname = None\<rparr>"

subsection \<open>Vocabulary for the properties of the listener\<close>

fun is_Print :: "event \<Rightarrow> bool" where
  "is_Print (Print _) = True"
| "is_Print _ = False"

text \<open>The texts the read loop logs for the lines \<open>ls\<close>: the decoded lines without
  their trailing whitespace, those that are empty left out.\<close>

definition messages :: "listen_env \<Rightarrow> string list \<Rightarrow> string list" where
  "messages env ls = filter (\<lambda>m. m \<noteq> []) (map (\<lambda>l. rstrip (decode_ignore env l)) ls)"

text \<open>The text that logging the messages \<open>ms\<close>, the first in call \<open>k\<close>, adds to the
  history file: one line for each message whose write does not fail.\<close>

fun appended :: "listen_env \<Rightarrow> nat \<Rightarrow> string list \<Rightarrow> string" where
  "appended env k [] = []"
| "appended env k (m # ms) =
     (case disk env k of None \<Rightarrow> log_entry env k m @ ''\<newline>'' | Some _ \<Rightarrow> [])
       @ appended env (Suc k) ms"

text \<open>The connect attempts and the delays of a trace.\<close>

fun is_timing :: "event \<Rightarrow> bool" where
  "is_timing Connect = True"
| "is_timing (Sleep _) = True"
| "is_timing _ = False"

definition timing :: "event list \<Rightarrow> event list" where
  "timing tr = filter is_timing tr"

text \<open>The exception that ends an attempt, if one does; an attempt is recoverable when
  that exception, if any, derives from \<^verbatim>\<open>Exception\<close>, and delayed when it is any
  exception other than \<^verbatim>\<open>IncompleteReadError\<close>.\<close>

fun feed_failure :: "read_item list \<Rightarrow> exn option" where
  "feed_failure [] = None"
| "feed_failure (Raises e _ # _) = Some e"
| "feed_failure (Line l # rest) = (if l = [] then None else feed_failure rest)"

definition failure :: "connect_result \<Rightarrow> exn option" where
  "failure c = (case c of Refused e \<Rightarrow> Some e | Accepted srv \<Rightarrow> feed_failure (feed srv))"

definition recoverable :: "connect_result \<Rightarrow> bool" where
  "recoverable c = (case failure c of None \<Rightarrow> True | Some e \<Rightarrow> is_Exception e)"

definition delayed :: "connect_result \<Rightarrow> bool" where
  "delayed c = (case failure c of None \<Rightarrow> False | Some e \<Rightarrow> partial_of e = None)"

text \<open>What a script of attempts contributes to the timing of the trace: one connect
  each, followed by a delay of 5 after the delayed ones.\<close>

definition attempts :: "connect_result list \<Rightarrow> event list" where
  "attempts script = concat (map (\<lambda>c. Connect # (if delayed c then [Sleep 5] else [])) script)"

text \<open>A concrete environment: 7 March 2024, 09:00, one minute later at every call; the
  disk never fails; the lines are ASCII.\<close>

definition sample_env :: listen_env where
  "sample_env =
     \<lparr>clock = (\<lambda>k. \<lparr>dt_year = 2024, dt_month = 3, dt_day = 7, dt_hour = 9, dt_minute = k\<rparr>),
      disk = (\<lambda>k. None), decode_ignore = (\<lambda>b. b), create_fails = None\<rparr>"

definition sample_args :: listen_args where
  "sample_args = \<lparr>host = ''chat.example'', port = 5000, history_path = ''chat.txt''\<rparr>"

text \<open>The trace without what is printed, and two states that agree on it and on the
  variables that steer the loop.\<close>

definition network :: "event list \<Rightarrow> event list" where
  "network tr = filter (\<lambda>e. \<not> is_Print e) tr"

definition same_wire :: "listener \<Rightarrow> listener \<Rightarrow> bool" where
  "same_wire st st' =
     (network (trace st) = network (trace st') \<and> writer st = writer st' \<and>
      opened st = opened st' \<and> ticks st = ticks st')"

subsection \<open>Vocabulary for the properties of the sender\<close>

text \<open>
  A step keeps a property of the state when the property holds after the step
  whenever it held before, whatever the step returns or raises; it keeps it on error
  when this holds for the runs that raise. A property is tolerant of transport \<open>n\<close>
  when printing, prompting, reading from and writing to \<open>n\<close>, the loss of \<open>n\<close>,
  consuming input and setting the nickname all keep it.
\<close>

definition keeps :: "(sender \<Rightarrow> bool) \<Rightarrow> 'a step \<Rightarrow> bool" where
  "keeps P m = (\<forall>st. P st \<longrightarrow> P (snd (m st)))"

definition keeps_on_error :: "(sender \<Rightarrow> bool) \<Rightarrow> 'a step \<Rightarrow> bool" where
  "keeps_on_error P m = (\<forall>st e. P st \<longrightarrow> fst (m st) = Inl e \<longrightarrow> P (snd (m st)))"

definition tolerant :: "nat \<Rightarrow> (sender \<Rightarrow> bool) \<Rightarrow> bool" where
  "tolerant n P =
     ((\<forall>st s. P st \<longrightarrow> P (emit (Print s) st)) \<and>
      (\<forall>st p. P st \<longrightarrow> P (emit (Prompt p) st)) \<and>
      (\<forall>st l. P st \<longrightarrow> P (emit (Recv n l) st)) \<and>
      (\<forall>st d. P st \<longrightarrow> P (emit (Sent n d) st)) \<and>
      (\<forall>st. P st \<longrightarrow> P (emit (Lost n) st)) \<and>
      (\<forall>st r. P st \<longrightarrow> P (rest_of_feed n r st)) \<and>
      (\<forall>st r. P st \<longrightarrow> P (st\<lparr>stdin := r\<rparr>)) \<and>
      (\<forall>st v. P st \<longrightarrow> P (st\<lparr>nickname := v\<rparr>)))"

text \<open>A concrete environment of the sender. Its \<^verbatim>\<open>json.loads\<close> knows the three
  texts the examples use, \<^verbatim>\<open>null\<close>, \<^verbatim>\<open>{}\<close> and one account record, and rejects
  everything else.\<close>

definition sample_loads :: "string \<Rightarrow> json option" where
  "sample_loads s =
     (if s = ''null'' then Some JNull
      else if s = ''{}'' then Some (JObject [])
      else if s = ''{\"nickname\": \"Bob\", \"account_hash\": \"abc\"}''
      then Some (JObject [(''nickname'', JString ''Bob''), (''account_hash'', JString ''abc'')])
      else None)"

definition sample_send_env :: send_env where
  "sample_send_env =
     \<lparr>decode_strict = (\<lambda>b. Some b), json_loads = sample_loads, py_repr = (\<lambda>v. ''None''),
      hash_read_fails = None, hash_write_fails = None\<rparr>"

definition sample_send_args :: send_args where
  "sample_send_args = \<lparr>host = ''chat.example'', port = 5050, hash_file = ''account.hash''\<rparr>"

text \<open>A sender in its steady state on transport 0, with two acknowledgements to come
  and three lines of input, the second with blanks around it and the third empty.\<close>

definition chatting :: sender where
  "chatting =
     \<lparr>trace = [Connect, Opened 0],
      conns = [\<lparr>feed = [Line ''ack one\<newline>'', Line ''ack two\<newline>''], eof_closes = False\<rparr>],
      upcoming = [], stdin = [Typed ''hello'', Typed '' again '', Typed ''''],
      stored_hash = Some ''abc'', account_hash = Some (JString ''abc''),
      nickname = Some (JString ''Bob'')\<rparr>"

text \<open>The events of a trace that concern transport \<open>n\<close>, and the property that
  these are \<open>x\<close> and that \<open>n\<close> has been opened.\<close>

fun concerns :: "nat \<Rightarrow> event \<Rightarrow> bool" where
  "concerns n (Opened m) = (m = n)"
| "concerns n (Lost m) = (m = n)"
| "concerns n (Closed m) = (m = n)"
| "concerns n (Sent m _) = (m = n)"
| "concerns n (Recv m _) = (m = n)"
| "concerns n _ = False"

definition about :: "nat \<Rightarrow> event list \<Rightarrow> event list" where
  "about n tr = filter (concerns n) tr"

definition untouched :: "nat \<Rightarrow> event list \<Rightarrow> sender \<Rightarrow> bool" where
  "untouched n x s = (about n (trace s) = x \<and> n < length (conns s))"

text \<open>What \<^verbatim>\<open>connect_and_auth\<close> does once the first connection is closed: the
  second \<^verbatim>\<open>open_connection\<close>, \<^verbatim>\<open>register_account\<close> on it, and the two
  assignments.\<close>

definition registration_branch :: "send_env \<Rightarrow> send_args \<Rightarrow> nat step" where
  "registration_branch env args =
     and_then open_connection (\<lambda>n'.
       and_then (register_account env args n') (\<lambda>(h, nickname').
       and_then (\<lambda>st. (Inr (), st\<lparr>account_hash := Some h, nickname := Some nickname'\<rparr>)) (\<lambda>_.
       return n')))"

text \<open>Two runs of the sender against a server that registers the nickname it is
  given as Bob with token abc: one with no hash file, and one with the token
  \<open>old\<close> in the hash file and loaded, to which the server gives \<open>answer\<close>.\<close>

definition fresh_session :: sender where
  "fresh_session =
     sender_start
       [Accepted \<lparr>feed = [Line ''Hello\<newline>''], eof_closes = False\<rparr>,
        Accepted \<lparr>feed = [Line ''Hello\<newline>'', Line ''Enter nick\<newline>'',
                          Line ''{\"nickname\": \"Bob\", \"account_hash\": \"abc\"}\<newline>'',
                          Line ''Welcome\<newline>''],
                  eof_closes = False\<rparr>]
       [Typed ''bob'', Typed ''''] None"

definition returning_session :: "string \<Rightarrow> sender" where
  "returning_session answer =
     (sender_start
       [Accepted \<lparr>feed = [Line ''Hello\<newline>'', Line answer], eof_closes = False\<rparr>,
        Accepted \<lparr>feed = [Line ''Hello\<newline>'', Line ''Enter nick\<newline>'',
                          Line ''{\"nickname\": \"Bob\", \"account_hash\": \"abc\"}\<newline>'',
                          Line ''Welcome\<newline>''],
                  eof_closes = False\<rparr>]
       [Typed ''bob'', Typed ''''] (Some ''old''))\<lparr>account_hash := Some (JString ''old'')\<rparr>"

text \<open>The hash file holds \<open>v\<close>.\<close>

definition hash_is :: "string option \<Rightarrow> sender \<Rightarrow> bool" where
  "hash_is v s = (stored_hash s = v)"

text \<open>An empty process environment, and an \<^verbatim>\<open>int\<close> that reads the one port number
  the examples use.\<close>

definition no_env :: "string \<Rightarrow> string option" where
  "no_env name = None"

definition digits_only :: "string \<Rightarrow> int option" where
  "digits_only s = (if s = ''5000'' then Some 5000 else None)"

text \<open>
  The transports open after a trace are those opened in it and neither closed nor
  lost in it. A trace is scoped when at every moment of it at most one transport is
  open, and none is open at the moment of a connect attempt. \<open>one_open w b\<close> adds that
  no transport but \<open>w\<close> is open at the end, and that the transports opened are
  distinct and numbered below \<open>b\<close>.
\<close>

fun opened_ids :: "event list \<Rightarrow> nat list" where
  "opened_ids [] = []"
| "opened_ids (Opened n # tr) = n # opened_ids tr"
| "opened_ids (_ # tr) = opened_ids tr"

definition open_now :: "event list \<Rightarrow> nat list" where
  "open_now tr = filter (\<lambda>n. \<not> is_closing tr n) (opened_ids tr)"

fun scoped_from :: "event list \<Rightarrow> event list \<Rightarrow> bool" where
  "scoped_from p [] = (length (open_now p) \<le> 1)"
| "scoped_from p (e # tr) =
     (length (open_now p) \<le> 1 \<and> (if e = Connect then open_now p = [] else True) \<and>
      scoped_from (p @ [e]) tr)"

definition scoped :: "event list \<Rightarrow> bool" where
  "scoped tr = scoped_from [] tr"

definition one_open :: "nat option \<Rightarrow> nat \<Rightarrow> event list \<Rightarrow> bool" where
  "one_open w b tr =
     (scoped tr \<and> distinct (opened_ids tr) \<and> set (open_now tr) \<subseteq> set_option w \<and>
      (\<forall>n\<in>set (opened_ids tr). n < b))"

fun quiet :: "event \<Rightarrow> bool" where
  "quiet Connect = False"
| "quiet (Opened _) = False"
| "quiet (Lost _) = False"
| "quiet (Closed _) = False"
| "quiet _ = True"

definition listening :: "nat option \<Rightarrow> listener \<Rightarrow> bool" where
  "listening w st = one_open w (opened st) (trace st)"

definition held :: "listener \<Rightarrow> bool" where
  "held st = (listening None st \<or> (\<exists>n. writer st = Some n \<and> listening (Some n) st))"

definition sending :: "nat option \<Rightarrow> sender \<Rightarrow> bool" where
  "sending w st = one_open w (length (conns st)) (trace st)"

definition ensures :: "(sender \<Rightarrow> bool) \<Rightarrow> 'a step \<Rightarrow> ((exn + 'a) \<Rightarrow> sender \<Rightarrow> bool) \<Rightarrow> bool" where
  "ensures P m Q = (\<forall>st. P st \<longrightarrow> Q (fst (m st)) (snd (m st)))"

definition connected :: "(exn + nat) \<Rightarrow> sender \<Rightarrow> bool" where
  "connected r s = (case r of Inr n \<Rightarrow> sending (Some n) s | Inl e \<Rightarrow> \<exists>w. sending w s)"

section \<open>Properties of the listener\<close>

subsection \<open>Basic facts\<close>

lemma emit_trace [simp]: "trace (emit e st) = trace st @ [e]"
  by (simp add: emit_def)

lemma emit_listener [simp]:
  "history (emit e st) = history st"
  "ticks (emit e st) = ticks st"
  "writer (emit e st) = writer st"
  "opened (emit e st) = opened st"
  by (simp_all add: emit_def)

lemma end_of_stream_listener [simp]:
  "history (end_of_stream n b st) = history st"
  "ticks (end_of_stream n b st) = ticks st"
  "writer (end_of_stream n b st) = writer st"
  "opened (end_of_stream n b st) = opened st"
  by (simp_all add: end_of_stream_def)

lemma log_message_fields [simp]:
  "ticks (log_message env m st) = Suc (ticks st)"
  "writer (log_message env m st) = writer st"
  "opened (log_message env m st) = opened st"
  by (simp_all add: log_message_def Let_def split: option.splits)

lemma log_message_trace:
  "trace (log_message env m st) =
     trace st @ Print (log_entry env (ticks st) m) #
       (case disk env (ticks st) of None \<Rightarrow> [] | Some e \<Rightarrow> [Print (write_error_msg e)])"
  by (simp add: log_message_def Let_def split: option.splits)

lemma log_message_content:
  "content (history (log_message env m st)) =
     content (history st) @
       (case disk env (ticks st) of
          None \<Rightarrow> log_entry env (ticks st) m @ ''\<newline>''
        | Some e \<Rightarrow> [])"
  by (simp add: log_message_def Let_def content_def split: option.splits)

lemma filter_log_message [simp]:
  "(\<And>s. \<not> P (Print s)) \<Longrightarrow> filter P (trace (log_message env m st)) = filter P (trace st)"
  by (simp add: log_message_trace split: option.splits)

lemma messages_Cons:
  "messages env (l # ls) =
     (if rstrip (decode_ignore env l) = [] then messages env ls
      else rstrip (decode_ignore env l) # messages env ls)"
  by (simp add: messages_def)

lemma digit_in: "digit n \<in> set ''0123456789''"
proof -
  have "n mod 10 < length ''0123456789''" by simp
  then show ?thesis unfolding digit_def by (rule nth_mem)
qed

lemma log_entry_form:
  "\<exists>d1 d2 m1 m2 y1 y2 h1 h2 n1 n2.
     log_entry env k m =
       [CHR ''['', d1, d2, CHR ''.'', m1, m2, CHR ''.'', y1, y2, CHR '' '',
        h1, h2, CHR '':'', n1, n2, CHR '']'', CHR '' ''] @ m \<and>
     set [d1, d2, m1, m2, y1, y2, h1, h2, n1, n2] \<subseteq> set ''0123456789''"
proof -
  define t where "t = clock env k"
  have "log_entry env k m =
       [CHR ''['', digit (dt_day t div 10), digit (dt_day t), CHR ''.'',
        digit (dt_month t div 10), digit (dt_month t), CHR ''.'',
        digit (dt_year t mod 100 div 10), digit (dt_year t mod 100), CHR '' '',
        digit (dt_hour t div 10), digit (dt_hour t), CHR '':'',
        digit (dt_minute t div 10), digit (dt_minute t), CHR '']'', CHR '' ''] @ m"
    by (simp add: log_entry_def strftime_log_def two_digits_def t_def)
  moreover have "set [digit (dt_day t div 10), digit (dt_day t),
        digit (dt_month t div 10), digit (dt_month t),
        digit (dt_year t mod 100 div 10), digit (dt_year t mod 100),
        digit (dt_hour t div 10), digit (dt_hour t),
        digit (dt_minute t div 10), digit (dt_minute t)] \<subseteq> set ''0123456789''"
    using digit_in by (simp del: set_simps add: list.set)
  ultimately show ?thesis by blast
qed

lemma read_loop_lines:
  "\<forall>l\<in>set ls. l \<noteq> [] \<Longrightarrow>
   fst (read_loop env n eofc (map Line ls) k st) = Inr (k + length (messages env ls)) \<and>
   content (history (snd (read_loop env n eofc (map Line ls) k st))) =
     content (history st) @ appended env (ticks st) (messages env ls)"
proof (induction ls arbitrary: k st)
  case Nil
  then show ?case by (simp add: messages_def)
next
  case (Cons l ls)
  then have l: "l \<noteq> []" and rest: "\<forall>l\<in>set ls. l \<noteq> []" by simp_all
  let ?m = "rstrip (decode_ignore env l)"
  let ?st1 = "emit (Recv n l) st"
  show ?case
  proof (cases "?m = []")
    case True
    then have "read_loop env n eofc (map Line (l # ls)) k st =
               read_loop env n eofc (map Line ls) k ?st1"
      using l by simp
    with True Cons.IH [OF rest, of k ?st1] show ?thesis
      by (simp add: messages_Cons)
  next
    case False
    then have "read_loop env n eofc (map Line (l # ls)) k st =
               read_loop env n eofc (map Line ls) (k + 1) (log_message env ?m ?st1)"
      using l by simp
    with False Cons.IH [OF rest, of "k + 1" "log_message env ?m ?st1"] show ?thesis
      by (simp add: messages_Cons log_message_content split: option.splits)
  qed
qed

subsection \<open>Log entries per line read\<close>

text \<open>
  Claim C4, as the code has it. For every sequence of lines the transport delivers
  (a delivered line is never without bytes), the read loop counts and logs exactly the
  lines that still have text once decoded and stripped of trailing whitespace, in
  arrival order; a line that is empty or all whitespace is skipped. The history file
  grows by one line \<open>[DD.MM.YY HH:MM] text\<close> for each logged message whose write does
  not fail, the text being the line without its trailing whitespace.
\<close>

theorem log_append_per_line:
  assumes "\<forall>l\<in>set ls. l \<noteq> []"
  shows "fst (read_loop env n eofc (map Line ls) k st) = Inr (k + length (messages env ls)) \<and>
         content (history (snd (read_loop env n eofc (map Line ls) k st))) =
           content (history st) @ appended env (ticks st) (messages env ls) \<and>
         (\<exists>d1 d2 m1 m2 y1 y2 h1 h2 n1 n2.
           log_entry env j m =
             [CHR ''['', d1, d2, CHR ''.'', m1, m2, CHR ''.'', y1, y2, CHR '' '',
              h1, h2, CHR '':'', n1, n2, CHR '']'', CHR '' ''] @ m \<and>
           set [d1, d2, m1, m2, y1, y2, h1, h2, n1, n2] \<subseteq> set ''0123456789'')"
  using read_loop_lines [OF assms] log_entry_form by blast

text \<open>The lines \<open>hello\<close>, the empty line and \<open>world\<close> add exactly two entries.\<close>

theorem log_append_per_line_witness:
  "content (history (snd (read_loop sample_env 0 False
       (map Line [''hello\<newline>'', ''\<newline>'', ''world\<newline>'']) 0 (start (Some []))))) =
     ''[07.03.24 09:00] hello\<newline>[07.03.24 09:01] world\<newline>''"
proof -
  have h: "\<forall>l\<in>set [''hello\<newline>'', ''\<newline>'', ''world\<newline>'']. l \<noteq> []" by simp
  show ?thesis
    using log_append_per_line [OF h, of sample_env 0 False 0 "start (Some [])"]
    by (simp add: messages_def rstrip_def isspace_def sample_env_def start_def content_def
        log_entry_def strftime_log_def two_digits_def digit_def)
qed

text \<open>A line of three spaces is not empty, and no entry is written for it.\<close>

theorem log_append_blank_line_counterexample:
  "''   \<newline>'' \<noteq> ''\<newline>'' \<and>
   read_loop sample_env 0 False [Line ''   \<newline>''] 0 (start (Some [])) =
     (Inr 0, \<lparr>trace = [Recv 0 ''   \<newline>''], history = Some [], ticks = 0,
              writer = None, opened = 0\<rparr>)"
  by (simp add: rstrip_def isspace_def sample_env_def start_def emit_def end_of_stream_def)

subsection \<open>The reconnect loop\<close>

lemma timing_simps [simp]:
  "timing [] = []"
  "timing (e # tr) = (if is_timing e then e # timing tr else timing tr)"
  "timing (tr @ tr') = timing tr @ timing tr'"
  by (simp_all add: timing_def)

lemma timing_log_message [simp]:
  "timing (trace (log_message env m st)) = timing (trace st)"
  by (simp add: timing_def)

lemma timing_end_of_stream [simp]:
  "timing (trace (end_of_stream n b st)) = timing (trace st)"
  by (simp add: end_of_stream_def)

lemma read_loop_ok:
  "feed_failure items = None \<Longrightarrow> \<exists>k' st'. read_loop env n eofc items k st = (Inr k', st')"
proof (induction items arbitrary: k st)
  case (Cons i items)
  then show ?case by (cases i) (auto simp add: Let_def split: if_splits)
qed simp

lemma read_loop_fails:
  "feed_failure items = Some e \<Longrightarrow> \<exists>st'. read_loop env n eofc items k st = (Inl e, st')"
proof (induction items arbitrary: k st)
  case (Cons i items)
  then show ?case by (cases i) (auto simp add: Let_def split: if_splits)
qed simp

lemma timing_read_loop [simp]:
  "timing (trace (snd (read_loop env n eofc items k st))) = timing (trace st)"
proof (induction items arbitrary: k st)
  case (Cons i items)
  then show ?case by (cases i) (simp_all add: Let_def)
qed simp

lemma try_body_result:
  "fst (try_body env args c st) = (case failure c of None \<Rightarrow> Inr () | Some e \<Rightarrow> Inl e)"
proof (cases c)
  case (Refused e)
  then show ?thesis by (simp add: try_body_def failure_def Let_def)
next
  case (Accepted srv)
  let ?st4 = "log_message env (established_msg args)
       ((emit (Opened (opened st)) (emit Connect (log_message env (connecting_msg args) st)))
          \<lparr>writer := Some (opened st), opened := Suc (opened st)\<rparr>)"
  show ?thesis
  proof (cases "feed_failure (feed srv)")
    case None
    from read_loop_ok [OF this] obtain k' st'
      where "read_loop env (opened st) (eof_closes srv) (feed srv) 0 ?st4 = (Inr k', st')"
      by blast
    with Accepted None show ?thesis
      by (simp add: try_body_def failure_def Let_def)
  next
    case (Some e)
    from read_loop_fails [OF this] obtain st'
      where "read_loop env (opened st) (eof_closes srv) (feed srv) 0 ?st4 = (Inl e, st')"
      by blast
    with Accepted Some show ?thesis
      by (simp add: try_body_def failure_def Let_def)
  qed
qed

lemma timing_try_body:
  "timing (trace (snd (try_body env args c st))) = timing (trace st) @ [Connect]"
proof (cases c)
  case (Refused e)
  then show ?thesis by (simp add: try_body_def Let_def)
next
  case (Accepted srv)
  let ?st4 = "log_message env (established_msg args)
       ((emit (Opened (opened st)) (emit Connect (log_message env (connecting_msg args) st)))
          \<lparr>writer := Some (opened st), opened := Suc (opened st)\<rparr>)"
  obtain r st5 where rl: "read_loop env (opened st) (eof_closes srv) (feed srv) 0 ?st4 = (r, st5)"
    by force
  have "timing (trace st5) = timing (trace ?st4)"
    using timing_read_loop [of env "opened st" "eof_closes srv" "feed srv" 0 ?st4] rl by simp
  then show ?thesis using Accepted rl
    by (simp add: try_body_def Let_def split: sum.splits)
qed

lemma timing_finally [simp]:
  "timing (trace (finally_clause env st)) = timing (trace st)"
  by (simp add: finally_clause_def split: option.splits)

lemma timing_retry:
  "timing (trace (snd (retry_after_delay env m st))) = timing (trace st) @ [Sleep 5]"
  "fst (retry_after_delay env m st) = Continue"
  by (simp_all add: retry_after_delay_def)

lemma except_clauses_flow:
  "is_Exception e \<Longrightarrow>
   fst (except_clauses env args e st) = (if partial_of e = None then Continue else FallThrough)"
  by (cases e) (auto simp add: except_clauses_def timing_retry split: option.splits)

lemma except_clauses_timing:
  "is_Exception e \<Longrightarrow>
   timing (trace (snd (except_clauses env args e st))) =
     timing (trace st) @ (if partial_of e = None then [Sleep 5] else [])"
  by (cases e) (auto simp add: except_clauses_def timing_retry split: option.splits)

lemma session_recoverable:
  assumes "recoverable c"
  shows "fst (session env args c st) = (if delayed c then Continue else FallThrough)"
    and "timing (trace (snd (session env args c st))) =
           timing (trace st) @ Connect # (if delayed c then [Sleep 5] else [])"
proof -
  obtain r st1 where tb: "try_body env args c st = (r, st1)" by force
  have r: "r = (case failure c of None \<Rightarrow> Inr () | Some e \<Rightarrow> Inl e)"
    using try_body_result [of env args c st] tb by simp
  have t1: "timing (trace st1) = timing (trace st) @ [Connect]"
    using timing_try_body [of env args c st] tb by simp
  show "fst (session env args c st) = (if delayed c then Continue else FallThrough)"
  proof (cases "failure c")
    case None
    with r tb show ?thesis by (simp add: session_def delayed_def)
  next
    case (Some e)
    with assms have "is_Exception e" by (simp add: recoverable_def)
    from except_clauses_flow [OF this, of env args st1] Some r tb show ?thesis
      by (auto simp add: session_def delayed_def split: prod.splits if_splits)
  qed
  show "timing (trace (snd (session env args c st))) =
           timing (trace st) @ Connect # (if delayed c then [Sleep 5] else [])"
  proof (cases "failure c")
    case None
    with r tb t1 show ?thesis by (simp add: session_def delayed_def)
  next
    case (Some e)
    with assms have "is_Exception e" by (simp add: recoverable_def)
    from except_clauses_timing [OF this, of env args st1] Some r tb t1 show ?thesis
      by (auto simp add: session_def delayed_def split: prod.splits if_splits)
  qed
qed

lemma loop_recoverable:
  "list_all recoverable script \<Longrightarrow>
   fst (minechat_loop env args script st) = None \<and>
   timing (trace (snd (minechat_loop env args script st))) = timing (trace st) @ attempts script"
proof (induction script arbitrary: st)
  case Nil
  then show ?case by (simp add: attempts_def)
next
  case (Cons c cs)
  then have c: "recoverable c" and cs: "list_all recoverable cs" by simp_all
  obtain fl st1 where s: "session env args c st = (fl, st1)" by force
  from session_recoverable [OF c, of env args st] s
  have fl: "fl = (if delayed c then Continue else FallThrough)"
    and t: "timing (trace st1) = timing (trace st) @ Connect # (if delayed c then [Sleep 5] else [])"
    by simp_all
  from fl have "minechat_loop env args (c # cs) st = minechat_loop env args cs st1"
    using s by (simp split: if_splits)
  with Cons.IH [OF cs, of st1] t show ?case
    by (simp add: attempts_def)
qed

lemma session_connects:
  "\<exists>rest. timing (trace (snd (session env args c st))) = timing (trace st) @ Connect # rest"
proof -
  obtain r st1 where tb: "try_body env args c st = (r, st1)" by force
  have t1: "timing (trace st1) = timing (trace st) @ [Connect]"
    using timing_try_body [of env args c st] tb by simp
  show ?thesis
  proof (cases r)
    case (Inr u)
    with tb t1 show ?thesis by (simp add: session_def)
  next
    case (Inl e)
    obtain fl st2 where ex: "except_clauses env args e st1 = (fl, st2)" by force
    have "\<exists>rest. timing (trace st2) = timing (trace st1) @ rest"
      using ex by (auto simp add: except_clauses_def retry_after_delay_def split: if_splits option.splits)
    with Inl tb t1 ex show ?thesis by (auto simp add: session_def)
  qed
qed

text \<open>
  Claim C1, as the code has it. Whatever way an attempt ends short of an exception
  outside \<^verbatim>\<open>Exception\<close> (connect timeout, refusal, any \<^verbatim>\<open>OSError\<close>, clean end of
  stream, \<^verbatim>\<open>IncompleteReadError\<close>, any other \<^verbatim>\<open>Exception\<close>), the loop is not left and
  makes the next connect attempt, with no bound on the number of attempts. The attempt
  is followed by the delay of 5 exactly when it ended with an exception other than
  \<^verbatim>\<open>IncompleteReadError\<close>; after a clean end of stream and after
  \<^verbatim>\<open>IncompleteReadError\<close> the next attempt follows with no delay.
\<close>

theorem reconnect_forever:
  assumes "list_all recoverable script"
  shows "fst (minechat_loop env args script st) = None \<and>
         timing (trace (snd (minechat_loop env args script st))) =
           timing (trace st) @ attempts script"
  using loop_recoverable [OF assms] by blast

text \<open>A timeout, a connection that delivers one line and is closed, and a refusal:
  three attempts, the first and the third followed by the delay.\<close>

theorem reconnect_forever_witness:
  "fst (minechat_loop sample_env sample_args
          [Refused (Exn AsyncioTimeoutError []),
           Accepted \<lparr>feed = [Line ''hi\<newline>''], eof_closes = False\<rparr>,
           Refused (Exn ConnectionRefusedError [])] (start None)) = None \<and>
   timing (trace (snd (minechat_loop sample_env sample_args
          [Refused (Exn AsyncioTimeoutError []),
           Accepted \<lparr>feed = [Line ''hi\<newline>''], eof_closes = False\<rparr>,
           Refused (Exn ConnectionRefusedError [])] (start None)))) =
     [Connect, Sleep 5, Connect, Connect, Sleep 5]"
proof -
  have h: "list_all recoverable
          [Refused (Exn AsyncioTimeoutError []),
           Accepted \<lparr>feed = [Line ''hi\<newline>''], eof_closes = False\<rparr>,
           Refused (Exn ConnectionRefusedError [])]"
    by (simp add: recoverable_def failure_def)
  show ?thesis
    using reconnect_forever [OF h, of sample_env sample_args "start None"]
    by (simp add: attempts_def delayed_def failure_def start_def)
qed

text \<open>Two connections that the server closes cleanly: the second connect attempt
  follows the first with no delay between them.\<close>

theorem reconnect_without_delay_counterexample: "timing (trace (snd (minechat_client sample_env sample_args
    [Accepted \<lparr>feed = [], eof_closes = False\<rparr>, Accepted \<lparr>feed = [], eof_closes = False\<rparr>]
    (start None))))
    = [Connect, Connect]"
  by (simp add: minechat_client_def ensure_log_file_def start_def sample_env_def session_def
    try_body_def Let_def finally_clause_def is_closing_def log_message_trace end_of_stream_def)

text \<open>
  Claim C5. A connection on which the stream ends cleanly before any line has arrived:
  the iteration logs the closed-without-data message (its third log call), ends without
  an exception, and the loop goes on with the next attempt, which connects again.
\<close>

theorem clean_closure_without_data:
  "fst (session env args (Accepted \<lparr>feed = [], eof_closes = b\<rparr>) st) = FallThrough \<and>
   Print (log_entry env (ticks st + 2) closed_without_data_msg)
     \<in> set (trace (snd (session env args (Accepted \<lparr>feed = [], eof_closes = b\<rparr>) st))) \<and>
   minechat_loop env args (Accepted \<lparr>feed = [], eof_closes = b\<rparr> # cs) st =
     minechat_loop env args cs (snd (session env args (Accepted \<lparr>feed = [], eof_closes = b\<rparr>) st)) \<and>
   (\<exists>rest. timing (trace (snd (session env args c
               (snd (session env args (Accepted \<lparr>feed = [], eof_closes = b\<rparr>) st))))) =
            timing (trace st) @ Connect # Connect # rest)"
proof -
  let ?c0 = "Accepted \<lparr>feed = [], eof_closes = b\<rparr>"
  have fl: "fst (session env args ?c0 st) = FallThrough"
    by (simp add: session_def try_body_def Let_def)
  have pr: "Print (log_entry env (ticks st + 2) closed_without_data_msg)
     \<in> set (trace (snd (session env args ?c0 st)))"
    by (simp add: session_def try_body_def Let_def finally_clause_def log_message_trace
        end_of_stream_def split: option.splits)
  have lp: "minechat_loop env args (?c0 # cs) st = minechat_loop env args cs (snd (session env args ?c0 st))"
    using fl by (cases "session env args ?c0 st") simp
  have "recoverable ?c0" "\<not> delayed ?c0"
    by (simp_all add: recoverable_def delayed_def failure_def)
  then have t0: "timing (trace (snd (session env args ?c0 st))) = timing (trace st) @ [Connect]"
    using session_recoverable(2) [of ?c0 env args st] by simp
  from session_connects [of env args c "snd (session env args ?c0 st)"] t0
  have "\<exists>rest. timing (trace (snd (session env args c (snd (session env args ?c0 st))))) =
            timing (trace st) @ Connect # Connect # rest" by simp
  with fl pr lp show ?thesis by blast
qed

subsection \<open>Failing writes to the history file\<close>

lemma network_simps [simp]:
  "network [] = []"
  "network (e # tr) = (if is_Print e then network tr else e # network tr)"
  "network (tr @ tr') = network tr @ network tr'"
  by (simp_all add: network_def)

lemma network_log_message [simp]:
  "network (trace (log_message env m st)) = network (trace st)"
  by (simp add: network_def)

lemma is_closing_network: "is_closing tr n = is_closing (network tr) n"
  by (auto simp add: is_closing_def network_def)

lemma same_wire_closing:
  "same_wire st st' \<Longrightarrow> is_closing (trace st) n = is_closing (trace st') n"
  using is_closing_network [of "trace st" n] is_closing_network [of "trace st'" n]
  by (simp add: same_wire_def)

lemma same_wire_log:
  "same_wire st st' \<Longrightarrow> same_wire (log_message env m st) (log_message env' m' st')"
  by (simp add: same_wire_def)

lemma same_wire_emit:
  "same_wire st st' \<Longrightarrow> same_wire (emit e st) (emit e st')"
  by (simp add: same_wire_def)

lemma same_wire_eos:
  "same_wire st st' \<Longrightarrow> same_wire (end_of_stream n b st) (end_of_stream n b st')"
  by (simp add: end_of_stream_def same_wire_emit)

lemma same_wire_read_loop:
  "same_wire st st' \<Longrightarrow> decode_ignore env' = decode_ignore env \<Longrightarrow>
   fst (read_loop env n eofc items k st) = fst (read_loop env' n eofc items k st') \<and>
   same_wire (snd (read_loop env n eofc items k st)) (snd (read_loop env' n eofc items k st'))"
proof (induction items arbitrary: k st st')
  case Nil
  then show ?case by (simp add: same_wire_eos)
next
  case (Cons i items)
  show ?case
  proof (cases i)
    case (Raises e lost)
    with Cons.prems show ?thesis by (simp add: same_wire_emit)
  next
    case (Line l)
    let ?m = "rstrip (decode_ignore env l)"
    have a: "same_wire (emit (Recv n l) st) (emit (Recv n l) st')"
      using Cons.prems(1) by (rule same_wire_emit)
    have b: "same_wire (log_message env ?m (emit (Recv n l) st))
               (log_message env' ?m (emit (Recv n l) st'))"
      using a by (rule same_wire_log)
    from Cons.IH [OF a Cons.prems(2)] Cons.IH [OF b Cons.prems(2)] Line Cons.prems show ?thesis
      by (simp add: Let_def same_wire_eos)
  qed
qed

lemma same_wire_try_body:
  assumes "same_wire st st'" "decode_ignore env' = decode_ignore env"
  shows "fst (try_body env args c st) = fst (try_body env' args c st') \<and>
         same_wire (snd (try_body env args c st)) (snd (try_body env' args c st'))"
proof (cases c)
  case (Refused e)
  with assms show ?thesis
    by (simp add: try_body_def Let_def same_wire_emit same_wire_log)
next
  case (Accepted srv)
  let ?f = "\<lambda>env st. log_message env (established_msg args)
       ((emit (Opened (opened st)) (emit Connect (log_message env (connecting_msg args) st)))
          \<lparr>writer := Some (opened st), opened := Suc (opened st)\<rparr>)"
  have o: "opened st = opened st'" using assms by (simp add: same_wire_def)
  have s4: "same_wire (?f env st) (?f env' st')"
    using assms(1) by (simp add: same_wire_def)
  obtain r st5 where rl: "read_loop env (opened st) (eof_closes srv) (feed srv) 0 (?f env st) = (r, st5)"
    by force
  obtain r' st5' where rl': "read_loop env' (opened st) (eof_closes srv) (feed srv) 0 (?f env' st') = (r', st5')"
    by force
  from same_wire_read_loop [OF s4 assms(2), of "opened st" "eof_closes srv" "feed srv" 0] rl rl'
  have "r = r'" "same_wire st5 st5'" by simp_all
  with Accepted rl rl' o show ?thesis
    by (auto simp add: try_body_def Let_def same_wire_log split: sum.splits)
qed

lemma same_wire_retry:
  "same_wire st st' \<Longrightarrow>
   fst (retry_after_delay env m st) = fst (retry_after_delay env' m' st') \<and>
   same_wire (snd (retry_after_delay env m st)) (snd (retry_after_delay env' m' st'))"
  by (simp add: retry_after_delay_def same_wire_emit same_wire_log)

lemma same_wire_except:
  "same_wire st st' \<Longrightarrow>
   fst (except_clauses env args e st) = fst (except_clauses env' args e st') \<and>
   same_wire (snd (except_clauses env args e st)) (snd (except_clauses env' args e st'))"
  by (simp add: except_clauses_def same_wire_retry same_wire_log split: option.splits)

lemma same_wire_finally:
  assumes "same_wire st st'"
  shows "same_wire (finally_clause env st) (finally_clause env' st')"
proof -
  have w: "writer st = writer st'" using assms by (simp add: same_wire_def)
  show ?thesis
    using assms w same_wire_closing [OF assms]
    by (simp add: finally_clause_def same_wire_emit same_wire_log split: option.splits)
qed

lemma same_wire_session:
  assumes "same_wire st st'" "decode_ignore env' = decode_ignore env"
  shows "fst (session env args c st) = fst (session env' args c st') \<and>
         same_wire (snd (session env args c st)) (snd (session env' args c st'))"
proof -
  obtain r st1 where tb: "try_body env args c st = (r, st1)" by force
  obtain r' st1' where tb': "try_body env' args c st' = (r', st1')" by force
  from same_wire_try_body [OF assms, of args c] tb tb'
  have r: "r' = r" and s1: "same_wire st1 st1'" by simp_all
  show ?thesis
  proof (cases r)
    case (Inr u)
    with tb tb' r same_wire_finally [OF s1] show ?thesis by (simp add: session_def)
  next
    case (Inl e)
    obtain fl st2 where ex: "except_clauses env args e st1 = (fl, st2)" by force
    obtain fl' st2' where ex': "except_clauses env' args e st1' = (fl', st2')" by force
    from same_wire_except [OF s1, of env args e env'] ex ex'
    have "fl' = fl" and s2: "same_wire st2 st2'" by simp_all
    with Inl tb tb' r ex ex' same_wire_finally [OF s2] show ?thesis
      by (simp add: session_def)
  qed
qed

lemma same_wire_loop:
  assumes "decode_ignore env' = decode_ignore env"
  shows "same_wire st st' \<Longrightarrow>
         fst (minechat_loop env args script st) = fst (minechat_loop env' args script st') \<and>
         same_wire (snd (minechat_loop env args script st)) (snd (minechat_loop env' args script st'))"
proof (induction script arbitrary: st st')
  case Nil
  then show ?case by simp
next
  case (Cons c cs)
  obtain fl st1 where s: "session env args c st = (fl, st1)" by force
  obtain fl' st1' where s': "session env' args c st' = (fl', st1')" by force
  from same_wire_session [OF Cons.prems assms, of args c] s s'
  have fl: "fl' = fl" and s1: "same_wire st1 st1'" by simp_all
  show ?case
  proof (cases fl)
    case (Propagate e)
    with s s' fl s1 show ?thesis by simp
  next
    case FallThrough
    with s s' fl Cons.IH [OF s1] show ?thesis by simp
  next
    case Continue
    with s s' fl Cons.IH [OF s1] show ?thesis by simp
  qed
qed

text \<open>
  Claim C8. \<^verbatim>\<open>log_message\<close> has no exceptional result. When the write of its call
  fails, the entry is still printed, the error is printed after it, and the file is
  left as it was. Whether writes fail has no effect on the read loop or on the
  reconnect loop: with any other behaviour \<open>d\<close> of the disk, both end the same way
  (same count or exception; same status of the loop) and perform the same actions
  apart from what they print.
\<close>

theorem write_failure_swallowed:
  "history (log_message env m st) =
     (case disk env (ticks st) of
        None \<Rightarrow> Some (content (history st) @ log_entry env (ticks st) m @ ''\<newline>'')
      | Some e \<Rightarrow> history st) \<and>
   trace (log_message env m st) =
     trace st @ Print (log_entry env (ticks st) m) #
       (case disk env (ticks st) of None \<Rightarrow> [] | Some e \<Rightarrow> [Print (write_error_msg e)]) \<and>
   fst (read_loop (env\<lparr>disk := d\<rparr>) n eofc items k st) = fst (read_loop env n eofc items k st) \<and>
   network (trace (snd (read_loop (env\<lparr>disk := d\<rparr>) n eofc items k st))) =
     network (trace (snd (read_loop env n eofc items k st))) \<and>
   fst (minechat_loop (env\<lparr>disk := d\<rparr>) args script st) = fst (minechat_loop env args script st) \<and>
   network (trace (snd (minechat_loop (env\<lparr>disk := d\<rparr>) args script st))) =
     network (trace (snd (minechat_loop env args script st)))"
proof -
  have d: "decode_ignore (env\<lparr>disk := d\<rparr>) = decode_ignore env" by simp
  have s: "same_wire st st" by (simp add: same_wire_def)
  have h: "history (log_message env m st) =
     (case disk env (ticks st) of
        None \<Rightarrow> Some (content (history st) @ log_entry env (ticks st) m @ ''\<newline>'')
      | Some e \<Rightarrow> history st)"
    by (simp add: log_message_def Let_def split: option.splits)
  from same_wire_read_loop [OF s d, of n eofc items k]
       same_wire_loop [OF d s, of args script] h log_message_trace [of env m st]
  show ?thesis by (simp add: same_wire_def)
qed

text \<open>With a disk that rejects every write, both lines are still read and counted.\<close>

lemma write_failure_example:
  "read_loop (sample_env\<lparr>disk := (\<lambda>k. Some ''disk full'')\<rparr>) 0 False
     [Line ''hello\<newline>'', Line ''world\<newline>''] 0 (start (Some [])) =
   (Inr 2,
    \<lparr>trace = [Recv 0 ''hello\<newline>'', Print ''[07.03.24 09:00] hello'',
              Print ''Oshibka zapisi v fail: disk full'',
              Recv 0 ''world\<newline>'', Print ''[07.03.24 09:01] world'',
              Print ''Oshibka zapisi v fail: disk full''],
     history = Some [], ticks = 2, writer = None, opened = 0\<rparr>)"
  by (simp add: rstrip_def isspace_def sample_env_def start_def emit_def end_of_stream_def
      log_message_def log_entry_def strftime_log_def two_digits_def digit_def
      write_error_msg_def Let_def)

section \<open>Properties of the sender\<close>

subsection \<open>Steps that keep a property\<close>

lemma sender_emit [simp]:
  "stdin (emit e st) = stdin st"
  "conns (emit e st) = conns st"
  "upcoming (emit e st) = upcoming st"
  "stored_hash (emit e st) = stored_hash st"
  "account_hash (emit e st) = account_hash st"
  "nickname (emit e st) = nickname st"
  by (simp_all add: emit_def)

lemma keeps_and_then:
  "keeps P m \<Longrightarrow> (\<And>x. keeps P (f x)) \<Longrightarrow> keeps P (and_then m f)"
  unfolding keeps_def and_then_def
  by (auto split: prod.splits sum.splits)

lemma keeps_on_error_and_then:
  "keeps P m \<Longrightarrow> (\<And>x. keeps_on_error P (f x)) \<Longrightarrow> keeps_on_error P (and_then m f)"
  unfolding keeps_def keeps_on_error_def and_then_def
  by (auto split: prod.splits sum.splits)

lemma keeps_return [simp]: "keeps P (return x)"
  by (simp add: keeps_def return_def)

lemma keeps_pure [simp]: "keeps P (\<lambda>st. (r, st))"
  by (simp add: keeps_def)

lemma keeps_print: "tolerant n P \<Longrightarrow> keeps P (print s)"
  by (simp add: keeps_def tolerant_def print_def)

lemma keeps_decode: "keeps P (decode env b)"
  by (simp add: keeps_def decode_def split: option.splits)

lemma keeps_getitem: "keeps P (getitem v key)"
  by (simp add: keeps_def getitem_def split: json.splits option.splits)

lemma keeps_loads:
  "keeps P (\<lambda>st. case json_loads env s of None \<Rightarrow> (Inl e, st) | Some v \<Rightarrow> (Inr v, st))"
  by (simp add: keeps_def split: option.splits)

lemma keeps_write_drain: "tolerant n P \<Longrightarrow> keeps P (write_drain n d)"
  by (simp add: keeps_def tolerant_def write_drain_def)

lemma keeps_readline: "tolerant n P \<Longrightarrow> keeps P (readline n)"
  by (auto simp add: keeps_def tolerant_def readline_def end_of_stream_def
      split: list.splits read_item.splits)

lemma keeps_py_input: "tolerant n P \<Longrightarrow> keeps P (py_input p)"
  by (auto simp add: keeps_def tolerant_def py_input_def Let_def
      split: list.splits input_item.splits)

lemma keeps_send_message: "tolerant n P \<Longrightarrow> keeps P (send_message env n message)"
  unfolding send_message_def
  by (intro keeps_and_then keeps_write_drain keeps_readline keeps_decode keeps_print)

lemma keeps_login: "tolerant n P \<Longrightarrow> keeps P (login_with_hash env n)"
  unfolding login_with_hash_def
  apply (intro keeps_and_then keeps_readline keeps_decode keeps_print; (assumption)?)
   apply (simp add: keeps_def write_drain_def tolerant_def)
  apply (simp split: option.splits)
  apply (intro conjI impI allI keeps_and_then keeps_print keeps_return keeps_getitem; (assumption)?)
  apply (simp add: keeps_def tolerant_def)
  done

lemma keepsD: "keeps P m \<Longrightarrow> P st \<Longrightarrow> m st = (r, st') \<Longrightarrow> P st'"
  by (auto simp add: keeps_def)

lemma keeps_loop_except: "tolerant n P \<Longrightarrow> keeps P (loop_except e)"
  by (simp add: keeps_def loop_except_def print_def tolerant_def)

lemma loop_keeps_aux:
  "tolerant n P \<Longrightarrow> P st \<Longrightarrow> P (snd (interactive_loop env n st))"
proof (induction env n st rule: interactive_loop.induct)
  case (1 env n st)
  obtain r st1 where p: "py_input ''> '' st = (r, st1)" by force
  have P1: "P st1"
    using keepsD [OF keeps_py_input [OF "1.prems"(1)] "1.prems"(2) p] .
  show ?case
  proof (cases r)
    case (Inl e)
    with p P1 keeps_loop_except [OF "1.prems"(1), of e] show ?thesis
      by (subst interactive_loop.simps) (simp add: keeps_def)
  next
    case (Inr typed)
    show ?thesis
    proof (cases "strip typed = []")
      case True
      with p Inr P1 show ?thesis
        by (subst interactive_loop.simps) simp
    next
      case False
      obtain r2 st2 where s: "send_message env n (strip typed) st1 = (r2, st2)" by force
      have P2: "P st2"
        using keepsD [OF keeps_send_message [OF "1.prems"(1)] P1 s] .
      show ?thesis
      proof (cases r2)
        case (Inl e)
        with p Inr False s P2 keeps_loop_except [OF "1.prems"(1), of e] show ?thesis
          by (subst interactive_loop.simps) (simp add: keeps_def)
      next
        case (Inr u)
        have "P (snd (interactive_loop env n st2))"
          using "1.IH" [OF p [symmetric] \<open>r = Inr typed\<close> False s [symmetric] Inr "1.prems"(1) P2] .
        with p \<open>r = Inr typed\<close> False s Inr show ?thesis
          by (subst interactive_loop.simps) simp
      qed
    qed
  qed
qed

lemma keeps_loop: "tolerant n P \<Longrightarrow> keeps P (interactive_loop env n)"
  by (simp add: keeps_def loop_keeps_aux)

lemma keeps_welcome_and_loop: "tolerant n P \<Longrightarrow> keeps P (welcome_and_loop env n)"
  unfolding welcome_and_loop_def
  by (intro keeps_and_then keeps_readline keeps_decode keeps_print keeps_loop)

lemma keeps_save_hash:
  "tolerant n P \<Longrightarrow> (\<And>st v. P st \<Longrightarrow> P (st\<lparr>stored_hash := v\<rparr>)) \<Longrightarrow>
   keeps P (save_hash env args h)"
  by (auto simp add: keeps_def save_hash_def tolerant_def split: option.splits json.splits)

lemma keeps_register:
  "tolerant n P \<Longrightarrow> (\<And>st v. P st \<Longrightarrow> P (st\<lparr>stored_hash := v\<rparr>)) \<Longrightarrow>
   keeps P (register_account env args n)"
  unfolding register_account_def
  by (intro keeps_and_then keeps_readline keeps_decode keeps_print keeps_write_drain
      keeps_py_input keeps_return keeps_loads keeps_getitem keeps_save_hash)

lemma never_fails_keeps_on_error:
  "(\<And>st. \<exists>v. fst (m st) = Inr v) \<Longrightarrow> keeps_on_error P m"
  by (auto simp add: keeps_on_error_def) (metis Inl_Inr_False)

lemma keeps_on_error_save:
  "keeps_on_error P (and_then (save_hash env args h) (\<lambda>_. return x))"
  by (rule never_fails_keeps_on_error)
     (simp add: and_then_def save_hash_def return_def split: option.splits json.splits)

lemma keeps_on_error_register:
  "tolerant n P \<Longrightarrow> keeps_on_error P (register_account env args n)"
  unfolding register_account_def
  by (intro keeps_on_error_save keeps_on_error_and_then keeps_readline keeps_decode keeps_print
      keeps_write_drain keeps_py_input keeps_return keeps_loads keeps_getitem)

subsection \<open>The interactive loop\<close>

lemma loop_after_prompt:
  assumes "tolerant n P" "P (snd (py_input ''> '' st))"
  shows "P (snd (interactive_loop env n st))"
proof -
  obtain r st1 where p: "py_input ''> '' st = (r, st1)" by force
  with assms(2) have P1: "P st1" by simp
  show ?thesis
  proof (cases r)
    case (Inl e)
    with p P1 keeps_loop_except [OF assms(1), of e] show ?thesis
      by (subst interactive_loop.simps) (simp add: keeps_def)
  next
    case (Inr typed)
    show ?thesis
    proof (cases "strip typed = []")
      case True
      with p Inr P1 show ?thesis
        by (subst interactive_loop.simps) simp
    next
      case False
      obtain r2 st2 where s: "send_message env n (strip typed) st1 = (r2, st2)" by force
      have P2: "P st2"
        using keepsD [OF keeps_send_message [OF assms(1)] P1 s] .
      show ?thesis
      proof (cases r2)
        case (Inl e)
        with p Inr False s P2 keeps_loop_except [OF assms(1), of e] show ?thesis
          by (subst interactive_loop.simps) (simp add: keeps_def)
      next
        case (Inr u)
        have "P (snd (interactive_loop env n st2))"
          using keeps_loop [OF assms(1), of env] P2 by (simp add: keeps_def)
        with p \<open>r = Inr typed\<close> False s Inr show ?thesis
          by (subst interactive_loop.simps) simp
      qed
    qed
  qed
qed

lemma tolerant_extends: "tolerant n (\<lambda>s. \<exists>tr. trace s = tr0 @ tr)"
  by (auto simp add: tolerant_def rest_of_feed_def)

lemma loop_prompts_first:
  "\<exists>tr. trace (snd (interactive_loop env n st)) = trace st @ Prompt ''> '' # tr"
proof -
  have "\<exists>tr. trace (snd (py_input ''> '' st)) = (trace st @ [Prompt ''> '']) @ tr"
    by (auto simp add: py_input_def Let_def split: list.splits input_item.splits)
  from loop_after_prompt
    [where P = "\<lambda>s. \<exists>tr. trace s = (trace st @ [Prompt ''> '']) @ tr" and env = env,
      OF tolerant_extends this]
  show ?thesis by simp
qed

lemma loop_ends_on_blank:
  "stdin st = Typed typed # rest \<Longrightarrow> strip typed = [] \<Longrightarrow>
   interactive_loop env n st = (Inr (), st\<lparr>stdin := rest, trace := trace st @ [Prompt ''> '']\<rparr>)"
  by (subst interactive_loop.simps) (simp add: py_input_def Let_def emit_def)

lemma loop_round_trip:
  assumes "stdin st = Typed typed # rest" "strip typed \<noteq> []"
    and "\<not> is_closing (trace st) n"
    and "feed (conns st ! n) = Line ack # later"
    and "decode_strict env ack = Some a"
  shows "interactive_loop env n st =
         interactive_loop env n
           (st\<lparr>stdin := rest,
               conns := (conns st)[n := (conns st ! n)\<lparr>feed := later\<rparr>],
               trace := trace st @ [Prompt ''> '', Sent n (strip typed @ ''\<newline>''), Recv n ack,
                                    Print (strip a)]\<rparr>)"
  using assms
  by (subst interactive_loop.simps)
     (simp add: py_input_def Let_def send_message_def and_then_def write_drain_def
        readline_def rest_of_feed_def decode_def print_def is_closing_def emit_def)

text \<open>
  Claim C6, as the code has it. The loop begins every round by asking for input. An
  input line that is empty once stripped of surrounding whitespace ends the loop
  without error and nothing is sent. Any other line is sent stripped, with a line
  terminator; one line is then read from the server and printed stripped; only then
  does the next round ask for input.
\<close>

theorem interactive_round_trip:
  "(stdin st = Typed typed # rest \<and> strip typed = [] \<longrightarrow>
      interactive_loop env n st =
        (Inr (), st\<lparr>stdin := rest, trace := trace st @ [Prompt ''> '']\<rparr>)) \<and>
   (stdin st = Typed typed # rest \<and> strip typed \<noteq> [] \<and> \<not> is_closing (trace st) n \<and>
    feed (conns st ! n) = Line ack # later \<and> decode_strict env ack = Some a \<longrightarrow>
      interactive_loop env n st =
        interactive_loop env n
          (st\<lparr>stdin := rest,
              conns := (conns st)[n := (conns st ! n)\<lparr>feed := later\<rparr>],
              trace := trace st @ [Prompt ''> '', Sent n (strip typed @ ''\<newline>''), Recv n ack,
                                   Print (strip a)]\<rparr>)) \<and>
   (\<exists>tr. trace (snd (interactive_loop env n st)) = trace st @ Prompt ''> '' # tr)"
  using loop_ends_on_blank [of st typed rest env n]
    loop_round_trip [of st typed rest n ack later env a]
    loop_prompts_first [of env n st]
  by blast

theorem interactive_round_trip_witness:
  "interactive_loop sample_send_env 0 chatting =
     interactive_loop sample_send_env 0
       (chatting\<lparr>stdin := [Typed '' again '', Typed ''''],
                 conns := [\<lparr>feed = [Line ''ack two\<newline>''], eof_closes = False\<rparr>],
                 trace := [Connect, Opened 0, Prompt ''> '', Sent 0 ''hello\<newline>'',
                           Recv 0 ''ack one\<newline>'', Print ''ack one'']\<rparr>) \<and>
   interactive_loop sample_send_env 0 (chatting\<lparr>stdin := [Typed '''']\<rparr>) =
     (Inr (), chatting\<lparr>stdin := [], trace := [Connect, Opened 0, Prompt ''> '']\<rparr>)"
  using interactive_round_trip [of chatting "''hello''" "[Typed '' again '', Typed '''']"
      sample_send_env 0 "''ack one\<newline>''" "[Line ''ack two\<newline>'']" "''ack one\<newline>''"]
    interactive_round_trip [of "chatting\<lparr>stdin := [Typed '''']\<rparr>" "''''" "[]" sample_send_env 0]
  by (simp add: chatting_def sample_send_env_def is_closing_def strip_def lstrip_def rstrip_def
      isspace_def)

text \<open>The whole run of the loop on that state: two round trips, then the empty line.\<close>

lemma interactive_loop_example:
  "interactive_loop sample_send_env 0 chatting =
     (Inr (),
      \<lparr>trace =
         [Connect, Opened 0, Prompt ''> '', Sent 0 ''hello\<newline>'',
          Recv 0 ''ack one\<newline>'', Print ''ack one'', Prompt ''> '',
          Sent 0 ''again\<newline>'', Recv 0 ''ack two\<newline>'', Print ''ack two'',
          Prompt ''> ''],
       conns = [\<lparr>feed = [], eof_closes = False\<rparr>], upcoming = [],
       stdin = [], stored_hash = Some ''abc'',
       account_hash = Some (JString ''abc''),
       nickname = Some (JString ''Bob'')\<rparr>)"
  apply (subst interactive_loop.simps)
  apply (simp add: chatting_def py_input_def Let_def send_message_def and_then_def
      write_drain_def readline_def rest_of_feed_def decode_def print_def is_closing_def
      emit_def sample_send_env_def strip_def lstrip_def rstrip_def isspace_def)
  apply (subst interactive_loop.simps)
  apply (simp add: py_input_def Let_def send_message_def and_then_def
      write_drain_def readline_def rest_of_feed_def decode_def print_def is_closing_def
      emit_def sample_send_env_def strip_def lstrip_def rstrip_def isspace_def)
  apply (subst interactive_loop.simps)
  apply (simp add: py_input_def Let_def strip_def lstrip_def rstrip_def emit_def)
  done

text \<open>An input line of three spaces is not empty; it ends the loop and is not sent.\<close>

theorem blank_input_counterexample:
  "''   '' \<noteq> [] \<and>
   interactive_loop sample_send_env 0 (chatting\<lparr>stdin := [Typed ''   '', Typed ''hello'']\<rparr>) =
     (Inr (), chatting\<lparr>stdin := [Typed ''hello''],
                       trace := [Connect, Opened 0, Prompt ''> '']\<rparr>)"
  by (subst interactive_loop.simps)
     (simp add: chatting_def py_input_def Let_def strip_def lstrip_def rstrip_def isspace_def
        emit_def)

subsection \<open>The handshake\<close>

lemmas sender_steps =
  and_then_def return_def print_def open_connection_def readline_def write_drain_def close_def
  py_input_def decode_def getitem_def rest_of_feed_def end_of_stream_def Let_def

lemma register_ok:
  assumes "feed (conns st ! n) = Line greeting # Line prompt # Line reply # later"
    and "n < length (conns st)"
    and "\<not> is_closing (trace st) n"
    and "decode_strict env greeting = Some g"
    and "decode_strict env prompt = Some p"
    and "decode_strict env reply = Some r"
    and "json_loads env (strip r) = Some (JObject kvs)"
    and "map_of kvs ''account_hash'' = Some h"
    and "map_of kvs ''nickname'' = Some nick"
    and "stdin st = Typed typed # inputs"
  shows "register_account env args n st =
     (case save_hash env args h
        (st\<lparr>stdin := inputs,
            conns := (conns st)[n := (conns st ! n)\<lparr>feed := later\<rparr>],
            trace := trace st @
              [Print ''Registratsiya novogo akkaunta...'', Recv n greeting, Print (strip g),
               Sent n ''\<newline>'', Recv n prompt, Print (strip p), Prompt ''Vvedite nikneim: '',
               Sent n ((if strip typed = [] then ''Anonymous'' else strip typed) @ ''\<newline>''),
               Recv n reply, Print (''Akkaunt sozdan: '' @ py_str env nick),
               Print (''Hash: '' @ py_str env h)]\<rparr>) of
        (_, st') \<Rightarrow> (Inr (h, nick), st'))"
  using assms
  by (simp add: register_account_def sender_steps is_closing_def emit_def save_hash_def
      split: option.splits json.splits)

lemma login_rejected:
  assumes "feed (conns st ! n) = Line greeting # Line response # later"
    and "n < length (conns st)"
    and "\<not> is_closing (trace st) n"
    and "decode_strict env greeting = Some g"
    and "decode_strict env response = Some r"
    and "json_loads env (strip r) = None"
  shows "login_with_hash env n st =
     (Inr False,
      st\<lparr>conns := (conns st)[n := (conns st ! n)\<lparr>feed := later\<rparr>],
         trace := trace st @
           [Print ''Avtorizatsiya s sushchestvuyushchim hash...'', Recv n greeting,
            Print (strip g),
            Sent n ((case account_hash st of None \<Rightarrow> ''None'' | Some h \<Rightarrow> py_str env h) @ ''\<newline>''),
            Recv n response, Print ''Oshibka avtorizatsii, vozmozhno hash nevernyi'']\<rparr>)"
  using assms
  by (simp add: login_with_hash_def sender_steps is_closing_def emit_def)

lemma connect_and_auth_alt:
  "connect_and_auth env args =
     and_then (print (''Podklyuchenie k '' @ endpoint args @ ''...'')) (\<lambda>_.
     and_then open_connection (\<lambda>n.
     and_then (print ''Soedinenie ustanovleno'') (\<lambda>_.
     and_then (\<lambda>st. if truthy (account_hash st) then login_with_hash env n st
                     else (Inr False, st)) (\<lambda>authorised.
       if authorised then return n
       else
         and_then (close n) (\<lambda>_.
         and_then (print ''Perepodklyuchenie dlya registratsii...'') (\<lambda>_.
         registration_branch env args))))))"
  unfolding connect_and_auth_def registration_branch_def by (rule refl)

lemma connect_without_hash:
  assumes "\<not> truthy (account_hash st)"
    and "upcoming st = Accepted srv # up"
  shows "connect_and_auth env args st =
     registration_branch env args
     (st\<lparr>upcoming := up, conns := conns st @ [srv],
         trace := trace st @
           [Print (''Podklyuchenie k '' @ endpoint args @ ''...''), Connect,
            Opened (length (conns st)), Print ''Soedinenie ustanovleno'',
            Closed (length (conns st)), Print ''Perepodklyuchenie dlya registratsii...'']\<rparr>)"
  unfolding connect_and_auth_alt using assms
  by (simp add: and_then_def print_def open_connection_def close_def Let_def emit_def)

lemma about_simps [simp]:
  "about n [] = []"
  "about n (e # tr) = (if concerns n e then e # about n tr else about n tr)"
  "about n (tr @ tr') = about n tr @ about n tr'"
  by (simp_all add: about_def)

lemma tolerant_untouched: "n' \<noteq> n \<Longrightarrow> tolerant n' (untouched n x)"
  by (auto simp add: tolerant_def untouched_def rest_of_feed_def)

lemma untouched_stored [simp]:
  "untouched n x (st\<lparr>stored_hash := v\<rparr>) = untouched n x st"
  "untouched n x (st\<lparr>account_hash := h, nickname := k\<rparr>) = untouched n x st"
  by (simp_all add: untouched_def)

lemma open_connection_untouched:
  assumes "untouched n x st" "open_connection st = (r, st')"
  shows "untouched n x st' \<and> (\<forall>m. r = Inr m \<longrightarrow> m \<noteq> n)"
  using assms
  by (auto simp add: open_connection_def Let_def untouched_def
      split: list.splits connect_result.splits)

lemma register_keeps_untouched:
  assumes "untouched n x st" "n' \<noteq> n"
  shows "untouched n x (snd (register_account env args n' st))"
proof -
  have "keeps (untouched n x) (register_account env args n')"
    by (rule keeps_register [OF tolerant_untouched [OF assms(2)]]) simp
  with assms(1) show ?thesis by (simp add: keeps_def)
qed

lemma reconnect_and_register_untouched:
  assumes "untouched n x st"
  shows "untouched n x (snd (registration_branch env args st))"
proof -
  obtain r st1 where o: "open_connection st = (r, st1)" by force
  from open_connection_untouched [OF assms o]
  have u1: "untouched n x st1" and ne: "\<forall>m. r = Inr m \<longrightarrow> m \<noteq> n" by simp_all
  show ?thesis
  proof (cases r)
    case (Inl e)
    with o u1 show ?thesis by (simp add: registration_branch_def and_then_def)
  next
    case (Inr n')
    with ne have "n' \<noteq> n" by simp
    from register_keeps_untouched [OF u1 this, of env args]
    have "untouched n x (snd (register_account env args n' st1))" .
    with o Inr show ?thesis
      by (auto simp add: registration_branch_def and_then_def return_def split: prod.splits sum.splits)
  qed
qed

lemma first_connection_only_opened_and_closed:
  assumes "\<not> truthy (account_hash st)" "upcoming st = Accepted srv # up"
  shows "about (length (conns st)) (trace (snd (connect_and_auth env args st))) =
         about (length (conns st)) (trace st) @ [Opened (length (conns st)), Closed (length (conns st))]"
proof -
  let ?n = "length (conns st)"
  let ?mid = "st\<lparr>upcoming := up, conns := conns st @ [srv],
         trace := trace st @
           [Print (''Podklyuchenie k '' @ endpoint args @ ''...''), Connect,
            Opened (length (conns st)), Print ''Soedinenie ustanovleno'',
            Closed (length (conns st)), Print ''Perepodklyuchenie dlya registratsii...'']\<rparr>"
  have "untouched ?n (about ?n (trace st) @ [Opened ?n, Closed ?n]) ?mid"
    by (simp add: untouched_def)
  from reconnect_and_register_untouched [OF this, of env args]
  show ?thesis
    unfolding connect_without_hash [OF assms, of env args] by (simp add: untouched_def)
qed

lemma save_hash_effect:
  "fst (save_hash env args h st) = Inr () \<and>
   network (trace (snd (save_hash env args h st))) = network (trace st) \<and>
   conns (snd (save_hash env args h st)) = conns st \<and>
   stored_hash (snd (save_hash env args h st)) =
     (case hash_write_fails env of
        Some e \<Rightarrow> stored_hash st
      | None \<Rightarrow> (case h of JString s \<Rightarrow> Some s | _ \<Rightarrow> Some []))"
  by (simp add: save_hash_def split: option.splits json.splits)

lemma registration_branch_ok:
  assumes "upcoming st = Accepted srv # up"
    and "feed srv = Line greeting # Line prompt # Line reply # later"
    and "\<not> is_closing (trace st) (length (conns st))"
    and "decode_strict env greeting = Some g"
    and "decode_strict env prompt = Some p"
    and "decode_strict env reply = Some r"
    and "json_loads env (strip r) = Some (JObject kvs)"
    and "map_of kvs ''account_hash'' = Some h"
    and "map_of kvs ''nickname'' = Some nick"
    and "stdin st = Typed typed # inputs"
  shows "fst (registration_branch env args st) = Inr (length (conns st)) \<and>
     network (trace (snd (registration_branch env args st))) =
       network (trace st) @
         [Connect, Opened (length (conns st)), Recv (length (conns st)) greeting,
          Sent (length (conns st)) ''\<newline>'', Recv (length (conns st)) prompt,
          Prompt ''Vvedite nikneim: '',
          Sent (length (conns st))
            ((if strip typed = [] then ''Anonymous'' else strip typed) @ ''\<newline>''),
          Recv (length (conns st)) reply] \<and>
     stored_hash (snd (registration_branch env args st)) =
       (case hash_write_fails env of
          Some e \<Rightarrow> stored_hash st
        | None \<Rightarrow> (case h of JString s \<Rightarrow> Some s | _ \<Rightarrow> Some [])) \<and>
     account_hash (snd (registration_branch env args st)) = Some h \<and>
     nickname (snd (registration_branch env args st)) = Some nick"
proof -
  let ?n = "length (conns st)"
  let ?st1 = "st\<lparr>upcoming := up, conns := conns st @ [srv],
                  trace := trace st @ [Connect, Opened ?n]\<rparr>"
  have o: "open_connection st = (Inr ?n, ?st1)"
    using assms(1) by (simp add: open_connection_def Let_def emit_def)
  let ?st2 = "?st1\<lparr>stdin := inputs,
            conns := (conns ?st1)[?n := (conns ?st1 ! ?n)\<lparr>feed := later\<rparr>],
            trace := trace ?st1 @
              [Print ''Registratsiya novogo akkaunta...'', Recv ?n greeting, Print (strip g),
               Sent ?n ''\<newline>'', Recv ?n prompt, Print (strip p), Prompt ''Vvedite nikneim: '',
               Sent ?n ((if strip typed = [] then ''Anonymous'' else strip typed) @ ''\<newline>''),
               Recv ?n reply, Print (''Akkaunt sozdan: '' @ py_str env nick),
               Print (''Hash: '' @ py_str env h)]\<rparr>"
  have r: "register_account env args ?n ?st1 =
     (case save_hash env args h ?st2 of (_, st') \<Rightarrow> (Inr (h, nick), st'))"
    using assms by (intro register_ok) (simp_all add: is_closing_def)
  obtain u st3 where s: "save_hash env args h ?st2 = (u, st3)" by force
  from save_hash_effect [of env args h ?st2] s
  have 3: "network (trace st3) = network (trace ?st2)"
    "stored_hash st3 = (case hash_write_fails env of
          Some e \<Rightarrow> stored_hash st
        | None \<Rightarrow> (case h of JString s \<Rightarrow> Some s | _ \<Rightarrow> Some []))"
    by (simp_all split: option.splits)
  have "registration_branch env args st =
     (Inr ?n, st3\<lparr>account_hash := Some h, nickname := Some nick\<rparr>)"
    using o r s by (simp add: registration_branch_def and_then_def return_def)
  with 3 show ?thesis by simp
qed

lemma connect_login_rejected:
  assumes "truthy (account_hash st)"
    and "upcoming st = Accepted srv # up"
    and "feed srv = Line greeting # Line response # later"
    and "\<not> is_closing (trace st) (length (conns st))"
    and "decode_strict env greeting = Some g"
    and "decode_strict env response = Some r"
    and "json_loads env (strip r) = None"
  shows "connect_and_auth env args st =
     registration_branch env args
       (st\<lparr>upcoming := up, conns := conns st @ [srv\<lparr>feed := later\<rparr>],
           trace := trace st @
             [Print (''Podklyuchenie k '' @ endpoint args @ ''...''), Connect,
              Opened (length (conns st)), Print ''Soedinenie ustanovleno'',
              Print ''Avtorizatsiya s sushchestvuyushchim hash...'',
              Recv (length (conns st)) greeting, Print (strip g),
              Sent (length (conns st))
                ((case account_hash st of None \<Rightarrow> ''None'' | Some h \<Rightarrow> py_str env h) @ ''\<newline>''),
              Recv (length (conns st)) response,
              Print ''Oshibka avtorizatsii, vozmozhno hash nevernyi'',
              Closed (length (conns st)), Print ''Perepodklyuchenie dlya registratsii...'']\<rparr>)"
proof -
  let ?n = "length (conns st)"
  let ?st1 = "st\<lparr>upcoming := up, conns := conns st @ [srv],
         trace := trace st @
           [Print (''Podklyuchenie k '' @ endpoint args @ ''...''), Connect,
            Opened ?n, Print ''Soedinenie ustanovleno'']\<rparr>"
  have l: "login_with_hash env ?n ?st1 =
     (Inr False,
      ?st1\<lparr>conns := (conns ?st1)[?n := (conns ?st1 ! ?n)\<lparr>feed := later\<rparr>],
         trace := trace ?st1 @
           [Print ''Avtorizatsiya s sushchestvuyushchim hash...'', Recv ?n greeting,
            Print (strip g),
            Sent ?n ((case account_hash ?st1 of None \<Rightarrow> ''None'' | Some h \<Rightarrow> py_str env h) @ ''\<newline>''),
            Recv ?n response, Print ''Oshibka avtorizatsii, vozmozhno hash nevernyi'']\<rparr>)"
    using assms by (intro login_rejected) (simp_all add: is_closing_def)
  show ?thesis
    unfolding connect_and_auth_alt using assms(1,2) l
    by (simp add: and_then_def print_def open_connection_def close_def Let_def emit_def)
qed

text \<open>
  Claim C10. With no credential loaded and the first \<^verbatim>\<open>open_connection\<close> succeeding,
  whatever happens afterwards the only events on the first transport are its opening
  and its closing: nothing is sent on it and nothing is read from it. When the second
  \<^verbatim>\<open>open_connection\<close> succeeds too and the server plays its part, the whole
  registration (greeting read, empty line sent, prompt read, nickname sent, account
  record read) takes place on the second transport, after the first has been closed.
\<close>

theorem registration_on_second_connection:
  assumes "account_hash st = None" and "upcoming st = Accepted srv # up"
  shows "about (length (conns st)) (trace (snd (connect_and_auth env args st))) =
           about (length (conns st)) (trace st) @
             [Opened (length (conns st)), Closed (length (conns st))] \<and>
         (up = Accepted srv' # up' \<and>
          feed srv' = Line greeting # Line prompt # Line reply # later \<and>
          \<not> is_closing (trace st) (Suc (length (conns st))) \<and>
          decode_strict env greeting = Some g \<and> decode_strict env prompt = Some p \<and>
          decode_strict env reply = Some r \<and>
          json_loads env (strip r) = Some (JObject kvs) \<and>
          map_of kvs ''account_hash'' = Some h \<and> map_of kvs ''nickname'' = Some nick \<and>
          stdin st = Typed typed # inputs \<longrightarrow>
          fst (connect_and_auth env args st) = Inr (Suc (length (conns st))) \<and>
          network (trace (snd (connect_and_auth env args st))) =
            network (trace st) @
              [Connect, Opened (length (conns st)), Closed (length (conns st)),
               Connect, Opened (Suc (length (conns st))),
               Recv (Suc (length (conns st))) greeting,
               Sent (Suc (length (conns st))) ''\<newline>'',
               Recv (Suc (length (conns st))) prompt,
               Prompt ''Vvedite nikneim: '',
               Sent (Suc (length (conns st)))
                 ((if strip typed = [] then ''Anonymous'' else strip typed) @ ''\<newline>''),
               Recv (Suc (length (conns st))) reply])"
proof -
  have nt: "\<not> truthy (account_hash st)" using assms(1) by (simp add: truthy_def)
  let ?mid = "st\<lparr>upcoming := up, conns := conns st @ [srv],
         trace := trace st @
           [Print (''Podklyuchenie k '' @ endpoint args @ ''...''), Connect,
            Opened (length (conns st)), Print ''Soedinenie ustanovleno'',
            Closed (length (conns st)), Print ''Perepodklyuchenie dlya registratsii...'']\<rparr>"
  have eq: "connect_and_auth env args st = registration_branch env args ?mid"
    by (rule connect_without_hash [OF nt assms(2)])
  have a: "about (length (conns st)) (trace (snd (connect_and_auth env args st))) =
           about (length (conns st)) (trace st) @
             [Opened (length (conns st)), Closed (length (conns st))]"
    by (rule first_connection_only_opened_and_closed [OF nt assms(2)])
  have b: "fst (connect_and_auth env args st) = Inr (Suc (length (conns st))) \<and>
          network (trace (snd (connect_and_auth env args st))) =
            network (trace st) @
              [Connect, Opened (length (conns st)), Closed (length (conns st)),
               Connect, Opened (Suc (length (conns st))),
               Recv (Suc (length (conns st))) greeting,
               Sent (Suc (length (conns st))) ''\<newline>'',
               Recv (Suc (length (conns st))) prompt,
               Prompt ''Vvedite nikneim: '',
               Sent (Suc (length (conns st)))
                 ((if strip typed = [] then ''Anonymous'' else strip typed) @ ''\<newline>''),
               Recv (Suc (length (conns st))) reply]"
    if c: "up = Accepted srv' # up'"
      "feed srv' = Line greeting # Line prompt # Line reply # later"
      "\<not> is_closing (trace st) (Suc (length (conns st)))"
      "decode_strict env greeting = Some g" "decode_strict env prompt = Some p"
      "decode_strict env reply = Some r"
      "json_loads env (strip r) = Some (JObject kvs)"
      "map_of kvs ''account_hash'' = Some h" "map_of kvs ''nickname'' = Some nick"
      "stdin st = Typed typed # inputs"
  proof -
    have "upcoming ?mid = Accepted srv' # up'" using c(1) by simp
    moreover have "\<not> is_closing (trace ?mid) (length (conns ?mid))"
      using c(3) by (simp add: is_closing_def)
    moreover have "stdin ?mid = Typed typed # inputs" using c(10) by simp
    ultimately show ?thesis
      using c(2,4-9)
        registration_branch_ok [where st = "?mid" and srv = srv' and up = up' and env = env
          and args = args and greeting = greeting and prompt = prompt and reply = reply
          and later = later and g = g and p = p and r = r and kvs = kvs and h = h
          and nick = nick and typed = typed and inputs = inputs]
      unfolding eq by simp
  qed
  from a b show ?thesis by blast
qed

theorem registration_on_second_connection_witness:
  "about 0 (trace (snd (connect_and_auth sample_send_env sample_send_args fresh_session))) =
     [Opened 0, Closed 0] \<and>
   fst (connect_and_auth sample_send_env sample_send_args fresh_session) = Inr 1 \<and>
   network (trace (snd (connect_and_auth sample_send_env sample_send_args fresh_session))) =
     [Connect, Opened 0, Closed 0, Connect, Opened 1, Recv 1 ''Hello\<newline>'', Sent 1 ''\<newline>'',
      Recv 1 ''Enter nick\<newline>'', Prompt ''Vvedite nikneim: '', Sent 1 ''bob\<newline>'',
      Recv 1 ''{\"nickname\": \"Bob\", \"account_hash\": \"abc\"}\<newline>'']"
  using registration_on_second_connection [where st = fresh_session and env = sample_send_env and args = sample_send_args
      and srv = "\<lparr>feed = [Line ''Hello\<newline>''], eof_closes = False\<rparr>"
      and srv' = "\<lparr>feed = [Line ''Hello\<newline>'', Line ''Enter nick\<newline>'',
                          Line ''{\"nickname\": \"Bob\", \"account_hash\": \"abc\"}\<newline>'',
                          Line ''Welcome\<newline>''],
                  eof_closes = False\<rparr>"
      and up = "[Accepted \<lparr>feed = [Line ''Hello\<newline>'', Line ''Enter nick\<newline>'',
                          Line ''{\"nickname\": \"Bob\", \"account_hash\": \"abc\"}\<newline>'',
                          Line ''Welcome\<newline>''],
                  eof_closes = False\<rparr>]"
      and up' = "[]" and greeting = "''Hello\<newline>''" and prompt = "''Enter nick\<newline>''"
      and reply = "''{\"nickname\": \"Bob\", \"account_hash\": \"abc\"}\<newline>''"
      and later = "[Line ''Welcome\<newline>'']"
      and g = "''Hello\<newline>''" and p = "''Enter nick\<newline>''"
      and r = "''{\"nickname\": \"Bob\", \"account_hash\": \"abc\"}\<newline>''"
      and kvs = "[(''nickname'', JString ''Bob''), (''account_hash'', JString ''abc'')]"
      and h = "JString ''abc''" and nick = "JString ''Bob''" and typed = "''bob''"
      and inputs = "[Typed '''']"]
  by (simp add: fresh_session_def sender_start_def sample_send_env_def sample_loads_def
      is_closing_def strip_def lstrip_def rstrip_def isspace_def)

text \<open>
  The answer to a saved token is not JSON: \<^verbatim>\<open>json.loads\<close> raises
  \<^verbatim>\<open>JSONDecodeError\<close>, which \<^verbatim>\<open>login_with_hash\<close> catches. No exception leaves the
  login; the transport is closed and a second connect attempt is made, whatever the
  server does then.
\<close>

lemma registration_branch_connects:
  "\<exists>tr. trace (snd (registration_branch env args st)) = trace st @ Connect # tr"
proof -
  let ?P = "\<lambda>s. \<exists>tr. trace s = (trace st @ [Connect]) @ tr"
  obtain r st1 where o: "open_connection st = (r, st1)" by force
  then have 1: "?P st1"
    by (auto simp add: open_connection_def Let_def emit_def
        split: list.splits connect_result.splits)
  have "?P (snd (registration_branch env args st))"
  proof (cases r)
    case (Inl e)
    with o 1 show ?thesis by (simp add: registration_branch_def and_then_def)
  next
    case (Inr n')
    have "keeps ?P (register_account env args n')"
      by (rule keeps_register [OF tolerant_extends]) simp
    with 1 have "?P (snd (register_account env args n' st1))" by (simp add: keeps_def)
    with o Inr show ?thesis
      by (auto simp add: registration_branch_def and_then_def return_def
          split: prod.splits sum.splits)
  qed
  then show ?thesis by simp
qed

lemma non_json_answer_reconnects:
  assumes "truthy (account_hash st)"
    and "upcoming st = Accepted srv # up"
    and "feed srv = Line hello # Line response # rest"
    and "decode_strict env hello = Some hello'"
    and "decode_strict env response = Some response'"
    and "json_loads env (strip response') = None"
    and "\<not> is_closing (trace st) (length (conns st))"
  shows "\<exists>tr. network (trace (snd (connect_and_auth env args st))) =
           network (trace st) @
             [Connect, Opened (length (conns st)),
              Recv (length (conns st)) hello,
              Sent (length (conns st))
                ((case account_hash st of None \<Rightarrow> ''None'' | Some h \<Rightarrow> py_str env h) @ ''\<newline>''),
              Recv (length (conns st)) response,
              Closed (length (conns st)), Connect] @ network tr"
proof -
  let ?mid = "st\<lparr>upcoming := up, conns := conns st @ [srv\<lparr>feed := rest\<rparr>],
           trace := trace st @
             [Print (''Podklyuchenie k '' @ endpoint args @ ''...''), Connect,
              Opened (length (conns st)), Print ''Soedinenie ustanovleno'',
              Print ''Avtorizatsiya s sushchestvuyushchim hash...'',
              Recv (length (conns st)) hello, Print (strip hello'),
              Sent (length (conns st))
                ((case account_hash st of None \<Rightarrow> ''None'' | Some h \<Rightarrow> py_str env h) @ ''\<newline>''),
              Recv (length (conns st)) response,
              Print ''Oshibka avtorizatsii, vozmozhno hash nevernyi'',
              Closed (length (conns st)), Print ''Perepodklyuchenie dlya registratsii...'']\<rparr>"
  have eq: "connect_and_auth env args st = registration_branch env args ?mid"
    by (rule connect_login_rejected [OF assms(1,2,3,7,4,5,6)])
  from registration_branch_connects [of env args ?mid] obtain tr
    where "trace (snd (registration_branch env args ?mid)) = trace ?mid @ Connect # tr" by blast
  then have "network (trace (snd (connect_and_auth env args st))) =
           network (trace st) @
             [Connect, Opened (length (conns st)),
              Recv (length (conns st)) hello,
              Sent (length (conns st))
                ((case account_hash st of None \<Rightarrow> ''None'' | Some h \<Rightarrow> py_str env h) @ ''\<newline>''),
              Recv (length (conns st)) response,
              Closed (length (conns st)), Connect] @ network tr"
    unfolding eq by simp
  then show ?thesis by blast
qed

text \<open>
  When the server at the second connection plays its part in the registration and the
  hash file can be written, the exchange runs on the new transport and ends with the
  token of the account record in the hash file and in \<^verbatim>\<open>account_hash\<close>.
\<close>

lemma non_json_answer_registers:
  assumes "truthy (account_hash st)"
    and "upcoming st = Accepted srv # Accepted srv' # up"
    and "feed srv = Line hello # Line response # rest"
    and "decode_strict env hello = Some hello'"
    and "decode_strict env response = Some response'"
    and "json_loads env (strip response') = None"
    and "\<not> is_closing (trace st) (length (conns st))"
    and "\<not> is_closing (trace st) (Suc (length (conns st)))"
    and "feed srv' = Line greeting # Line prompt # Line reply # later"
    and "decode_strict env greeting = Some g"
    and "decode_strict env prompt = Some p"
    and "decode_strict env reply = Some r"
    and "json_loads env (strip r) = Some (JObject kvs)"
    and "map_of kvs ''account_hash'' = Some (JString token)"
    and "map_of kvs ''nickname'' = Some nick"
    and "stdin st = Typed typed # inputs"
    and "hash_write_fails env = None"
  shows "fst (connect_and_auth env args st) = Inr (Suc (length (conns st))) \<and>
         network (trace (snd (connect_and_auth env args st))) =
           network (trace st) @
             [Connect, Opened (length (conns st)),
              Recv (length (conns st)) hello,
              Sent (length (conns st))
                ((case account_hash st of None \<Rightarrow> ''None'' | Some h \<Rightarrow> py_str env h) @ ''\<newline>''),
              Recv (length (conns st)) response,
              Closed (length (conns st)),
              Connect, Opened (Suc (length (conns st))),
              Recv (Suc (length (conns st))) greeting,
              Sent (Suc (length (conns st))) ''\<newline>'',
              Recv (Suc (length (conns st))) prompt,
              Prompt ''Vvedite nikneim: '',
              Sent (Suc (length (conns st)))
                ((if strip typed = [] then ''Anonymous'' else strip typed) @ ''\<newline>''),
              Recv (Suc (length (conns st))) reply] \<and>
         stored_hash (snd (connect_and_auth env args st)) = Some token \<and>
         account_hash (snd (connect_and_auth env args st)) = Some (JString token) \<and>
         nickname (snd (connect_and_auth env args st)) = Some nick"
proof -
  let ?mid = "st\<lparr>upcoming := Accepted srv' # up, conns := conns st @ [srv\<lparr>feed := rest\<rparr>],
           trace := trace st @
             [Print (''Podklyuchenie k '' @ endpoint args @ ''...''), Connect,
              Opened (length (conns st)), Print ''Soedinenie ustanovleno'',
              Print ''Avtorizatsiya s sushchestvuyushchim hash...'',
              Recv (length (conns st)) hello, Print (strip hello'),
              Sent (length (conns st))
                ((case account_hash st of None \<Rightarrow> ''None'' | Some h \<Rightarrow> py_str env h) @ ''\<newline>''),
              Recv (length (conns st)) response,
              Print ''Oshibka avtorizatsii, vozmozhno hash nevernyi'',
              Closed (length (conns st)), Print ''Perepodklyuchenie dlya registratsii...'']\<rparr>"
  have eq: "connect_and_auth env args st = registration_branch env args ?mid"
    by (rule connect_login_rejected [OF assms(1,2,3,7,4,5,6)])
  have "upcoming ?mid = Accepted srv' # up" by simp
  moreover have "\<not> is_closing (trace ?mid) (length (conns ?mid))"
    using assms(8) by (simp add: is_closing_def)
  moreover have "stdin ?mid = Typed typed # inputs" using assms(16) by simp
  ultimately show ?thesis
    using assms(9-15,17)
      registration_branch_ok [where st = "?mid" and srv = srv' and up = up and env = env
        and args = args and greeting = greeting and prompt = prompt and reply = reply
        and later = later and g = g and p = p and r = r and kvs = kvs
        and h = "JString token" and nick = nick and typed = typed and inputs = inputs]
    unfolding eq by simp
qed

lemma non_json_answer_example:
  "fst (connect_and_auth sample_send_env sample_send_args (returning_session ''garbage\<newline>'')) = Inr 1 \<and>
   network (trace (snd (connect_and_auth sample_send_env sample_send_args
       (returning_session ''garbage\<newline>'')))) =
     [Connect, Opened 0, Recv 0 ''Hello\<newline>'', Sent 0 ''old\<newline>'', Recv 0 ''garbage\<newline>'', Closed 0,
      Connect, Opened 1, Recv 1 ''Hello\<newline>'', Sent 1 ''\<newline>'',
      Recv 1 ''Enter nick\<newline>'', Prompt ''Vvedite nikneim: '', Sent 1 ''bob\<newline>'',
      Recv 1 ''{\"nickname\": \"Bob\", \"account_hash\": \"abc\"}\<newline>''] \<and>
   stored_hash (snd (connect_and_auth sample_send_env sample_send_args
       (returning_session ''garbage\<newline>''))) = Some ''abc''"
  using non_json_answer_registers [where st = "returning_session ''garbage\<newline>''" and env = sample_send_env
      and args = sample_send_args
      and srv = "\<lparr>feed = [Line ''Hello\<newline>'', Line ''garbage\<newline>''], eof_closes = False\<rparr>"
      and srv' = "\<lparr>feed = [Line ''Hello\<newline>'', Line ''Enter nick\<newline>'',
                          Line ''{\"nickname\": \"Bob\", \"account_hash\": \"abc\"}\<newline>'',
                          Line ''Welcome\<newline>''],
                  eof_closes = False\<rparr>"
      and up = "[]" and hello = "''Hello\<newline>''" and hello' = "''Hello\<newline>''"
      and response = "''garbage\<newline>''" and response' = "''garbage\<newline>''" and rest = "[]"
      and greeting = "''Hello\<newline>''" and prompt = "''Enter nick\<newline>''"
      and reply = "''{\"nickname\": \"Bob\", \"account_hash\": \"abc\"}\<newline>''"
      and later = "[Line ''Welcome\<newline>'']"
      and g = "''Hello\<newline>''" and p = "''Enter nick\<newline>''"
      and r = "''{\"nickname\": \"Bob\", \"account_hash\": \"abc\"}\<newline>''"
      and kvs = "[(''nickname'', JString ''Bob''), (''account_hash'', JString ''abc'')]"
      and token = "''abc''" and nick = "JString ''Bob''" and typed = "''bob''"
      and inputs = "[Typed '''']"]
  by (simp add: returning_session_def sender_start_def sample_send_env_def sample_loads_def
      is_closing_def truthy_def py_str_def strip_def lstrip_def rstrip_def isspace_def)

text \<open>
  Claim C2 on an answer that is JSON but no account record. The saved token
  \<^verbatim>\<open>old\<close> is sent and the server answers \<^verbatim>\<open>null\<close>, or \<^verbatim>\<open>{}\<close>. The
  subscript \<^verbatim>\<open>account_data['nickname']\<close> raises \<^verbatim>\<open>TypeError\<close>, or
  \<^verbatim>\<open>KeyError\<close>, and \<^verbatim>\<open>login_with_hash\<close> catches \<^verbatim>\<open>JSONDecodeError\<close> only:
  the exception leaves \<^verbatim>\<open>connect_and_auth\<close>, \<^verbatim>\<open>interactive_mode\<close> reports a
  connection error, the transport is left open, there is no second connect attempt
  (the second server is never contacted), and the hash file keeps the old token. The
  rejected login is not followed by a registration, which the claim requires and which
  the code does when the answer is not JSON at all.
\<close>

theorem rejected_login_without_record:
  "sample_loads ''null'' = Some JNull \<and>
   fst (connect_and_auth sample_send_env sample_send_args (returning_session ''null\<newline>'')) =
     Inl (Exn TypeError ''not subscriptable by a string'') \<and>
   fst (interactive_mode sample_send_env sample_send_args (returning_session ''null\<newline>'')) = None \<and>
   trace (snd (interactive_mode sample_send_env sample_send_args (returning_session ''null\<newline>''))) =
     [Print ''Podklyuchenie k chat.example:5050...'', Connect, Opened 0,
      Print ''Soedinenie ustanovleno'',
      Print ''Avtorizatsiya s sushchestvuyushchim hash...'',
      Recv 0 ''Hello\<newline>'', Print ''Hello'', Sent 0 ''old\<newline>'', Recv 0 ''null\<newline>'',
      Print ''Oshibka podklyucheniya: not subscriptable by a string'',
      Print ''Soedinenie zakryto''] \<and>
   open_now (trace (snd (interactive_mode sample_send_env sample_send_args
       (returning_session ''null\<newline>'')))) = [0] \<and>
   upcoming (snd (interactive_mode sample_send_env sample_send_args
       (returning_session ''null\<newline>''))) =
     [Accepted \<lparr>feed = [Line ''Hello\<newline>'', Line ''Enter nick\<newline>'',
                          Line ''{\"nickname\": \"Bob\", \"account_hash\": \"abc\"}\<newline>'',
                          Line ''Welcome\<newline>''],
                  eof_closes = False\<rparr>] \<and>
   stored_hash (snd (interactive_mode sample_send_env sample_send_args
       (returning_session ''null\<newline>''))) = Some ''old'' \<and>
   sample_loads ''{}'' = Some (JObject []) \<and>
   fst (connect_and_auth sample_send_env sample_send_args (returning_session ''{}\<newline>'')) =
     Inl (Exn KeyError [CHR 0x27, CHR ''n'', CHR ''i'', CHR ''c'', CHR ''k'', CHR ''n'',
                        CHR ''a'', CHR ''m'', CHR ''e'', CHR 0x27]) \<and>
   network (trace (snd (interactive_mode sample_send_env sample_send_args
       (returning_session ''{}\<newline>'')))) =
     [Connect, Opened 0, Recv 0 ''Hello\<newline>'', Sent 0 ''old\<newline>'', Recv 0 ''{}\<newline>''] \<and>
   open_now (trace (snd (interactive_mode sample_send_env sample_send_args
       (returning_session ''{}\<newline>'')))) = [0] \<and>
   stored_hash (snd (interactive_mode sample_send_env sample_send_args
       (returning_session ''{}\<newline>''))) = Some ''old''"
  by (simp add: interactive_mode_def connect_and_auth_def login_with_hash_def sender_steps
      mode_except_def mode_finally_def open_now_def
      returning_session_def sender_start_def sample_send_env_def sample_send_args_def
      sample_loads_def endpoint_def str_int_def digit_def
      is_closing_def truthy_def py_str_def strip_def lstrip_def rstrip_def isspace_def emit_def)

subsection \<open>The hash file\<close>

lemma tolerant_hash_is: "tolerant n (hash_is v)"
  by (simp add: tolerant_def hash_is_def rest_of_feed_def)

lemma keeps_open_connection_hash: "keeps (hash_is v) open_connection"
  by (auto simp add: keeps_def hash_is_def open_connection_def Let_def
      split: list.splits connect_result.splits)

lemma keeps_close_hash: "keeps (hash_is v) (close n)"
  by (simp add: keeps_def hash_is_def close_def)

lemma keeps_on_error_then_total:
  assumes "keeps_on_error P m" and "\<And>x st. \<exists>v. fst (f x st) = Inr v"
  shows "keeps_on_error P (and_then m f)"
  unfolding keeps_on_error_def
proof (intro allI impI)
  fix st e
  assume P: "P st" and r: "fst (and_then m f st) = Inl e"
  obtain a st1 where m: "m st = (a, st1)" by force
  show "P (snd (and_then m f st))"
  proof (cases a)
    case (Inl e')
    with assms(1) P m have "P st1" by (auto simp add: keeps_on_error_def)
    with Inl m show ?thesis by (simp add: and_then_def)
  next
    case (Inr x)
    from assms(2) [of x st1] obtain v where "fst (f x st1) = Inr v" by blast
    with Inr m r show ?thesis by (simp add: and_then_def)
  qed
qed

lemma keeps_on_error_branch: "keeps_on_error (hash_is v) (registration_branch env args)"
  unfolding registration_branch_def
  apply (rule keeps_on_error_and_then [OF keeps_open_connection_hash])
  apply (rule keeps_on_error_then_total [OF keeps_on_error_register [OF tolerant_hash_is]])
  apply (simp add: and_then_def return_def split: prod.splits)
  done

lemma keeps_imp_on_error: "keeps P m \<Longrightarrow> keeps_on_error P m"
  by (simp add: keeps_def keeps_on_error_def)

lemma keeps_on_error_if:
  "(c \<Longrightarrow> keeps_on_error P a) \<Longrightarrow> (\<not> c \<Longrightarrow> keeps_on_error P b) \<Longrightarrow>
   keeps_on_error P (if c then a else b)"
  by simp

lemma keeps_login_or_not:
  "keeps (hash_is v) (\<lambda>st. if truthy (account_hash st) then login_with_hash env n st
                     else (Inr False, st))"
  using keeps_login [OF tolerant_hash_is [of n v], where env = env]
  by (simp add: keeps_def)

lemma keeps_on_error_connect: "keeps_on_error (hash_is v) (connect_and_auth env args)"
  unfolding connect_and_auth_alt
  by (intro keeps_on_error_and_then keeps_on_error_if keeps_on_error_branch
      keeps_print [OF tolerant_hash_is] keeps_open_connection_hash keeps_close_hash
      keeps_login_or_not keeps_imp_on_error keeps_return)

lemma mode_except_hash: "mode_except e st = (r, st') \<Longrightarrow> stored_hash st' = stored_hash st"
  by (auto simp add: mode_except_def split: if_splits)

lemma mode_finally_hash [simp]: "stored_hash (mode_finally w st) = stored_hash st"
  by (simp add: mode_finally_def split: option.splits)

lemma interactive_mode_hash:
  "stored_hash (snd (interactive_mode env args st)) =
   stored_hash (snd (connect_and_auth env args st))"
proof -
  obtain r st1 where c: "connect_and_auth env args st = (r, st1)" by force
  show ?thesis
  proof (cases r)
    case (Inl e)
    with c show ?thesis
      by (auto simp add: interactive_mode_def split: prod.splits dest: mode_except_hash)
  next
    case (Inr n)
    obtain r2 st2 where w: "welcome_and_loop env n st1 = (r2, st2)" by force
    have "hash_is (stored_hash st1) st2"
      using keepsD [OF keeps_welcome_and_loop [OF tolerant_hash_is [of n "stored_hash st1"]] _ w]
      by (simp add: hash_is_def)
    with c Inr w show ?thesis
      by (auto simp add: interactive_mode_def hash_is_def split: prod.splits sum.splits
          dest: mode_except_hash)
  qed
qed

lemma login_success_connect:
  assumes "truthy (account_hash st)" and "upcoming st = Accepted srv # up"
    and "login_with_hash env (length (conns st))
           (st\<lparr>upcoming := up, conns := conns st @ [srv],
               trace := trace st @
                 [Print (''Podklyuchenie k '' @ endpoint args @ ''...''), Connect,
                  Opened (length (conns st)), Print ''Soedinenie ustanovleno'']\<rparr>) =
         (Inr True, st')"
  shows "connect_and_auth env args st = (Inr (length (conns st)), st')"
  unfolding connect_and_auth_alt using assms
  by (simp add: and_then_def print_def open_connection_def return_def Let_def emit_def)

lemma failing_registration:
  "fst (register_account sample_send_env sample_send_args 0 (chatting\<lparr>stdin := [Typed ''bob'']\<rparr>)) =
     Inl (Exn JSONDecodeError ''Expecting value'')"
  by (simp add: register_account_def save_hash_def sender_steps chatting_def
      sample_send_env_def sample_loads_def
      is_closing_def py_str_def strip_def lstrip_def rstrip_def isspace_def emit_def)

lemma refused_connection:
  "fst (connect_and_auth sample_send_env sample_send_args
      ((returning_session ''x'')\<lparr>upcoming := [Refused (Exn ConnectionRefusedError ''refused'')]\<rparr>)) =
     Inl (Exn ConnectionRefusedError ''refused'')"
  by (simp add: connect_and_auth_def sender_steps returning_session_def sender_start_def emit_def)

text \<open>
  Claim C9. The hash file is written by \<^verbatim>\<open>save_hash\<close> only, the last step of a
  registration that has received and parsed its account record. Hence: a login,
  whatever its result, and the steady state leave the file as it was; a registration
  that raises leaves it as it was; if \<^verbatim>\<open>connect_and_auth\<close> raises, the file is the
  same after \<^verbatim>\<open>interactive_mode\<close>; and when the login with the loaded token
  succeeds, no second connection is opened and the file is the same after
  \<^verbatim>\<open>interactive_mode\<close>.
\<close>

theorem hash_file_written_by_registration_only:
  "stored_hash (snd (login_with_hash env n st)) = stored_hash st \<and>
   stored_hash (snd (welcome_and_loop env n st)) = stored_hash st \<and>
   (fst (register_account env args n st) = Inl e \<longrightarrow>
      stored_hash (snd (register_account env args n st)) = stored_hash st) \<and>
   (fst (connect_and_auth env args st) = Inl e \<longrightarrow>
      stored_hash (snd (interactive_mode env args st)) = stored_hash st) \<and>
   (truthy (account_hash st) \<and> upcoming st = Accepted srv # up \<and>
    fst (login_with_hash env (length (conns st))
      (st\<lparr>upcoming := up, conns := conns st @ [srv],
          trace := trace st @
            [Print (''Podklyuchenie k '' @ endpoint args @ ''...''), Connect,
             Opened (length (conns st)), Print ''Soedinenie ustanovleno'']\<rparr>)) =
      Inr True \<longrightarrow>
      fst (connect_and_auth env args st) = Inr (length (conns st)) \<and>
      upcoming (snd (connect_and_auth env args st)) = up \<and>
      stored_hash (snd (interactive_mode env args st)) = stored_hash st)"
proof -
  have 1: "stored_hash (snd (login_with_hash env n s)) = stored_hash s" for n s
    using keeps_login [OF tolerant_hash_is [of n "stored_hash s"], where env = env]
    by (simp add: keeps_def hash_is_def)
  have 2: "stored_hash (snd (welcome_and_loop env n st)) = stored_hash st"
    using keeps_welcome_and_loop [OF tolerant_hash_is [of n "stored_hash st"], where env = env]
    by (simp add: keeps_def hash_is_def)
  have 3: "stored_hash (snd (register_account env args n st)) = stored_hash st"
    if "fst (register_account env args n st) = Inl e"
    using keeps_on_error_register [OF tolerant_hash_is [of n "stored_hash st"],
        where env = env and args = args] that
    by (simp add: keeps_on_error_def hash_is_def)
  have 4: "stored_hash (snd (interactive_mode env args st)) = stored_hash st"
    if "fst (connect_and_auth env args st) = Inl e"
    using keeps_on_error_connect [of "stored_hash st" env args] that
    by (simp add: keeps_on_error_def hash_is_def interactive_mode_hash)
  have 5: "fst (connect_and_auth env args st) = Inr (length (conns st)) \<and>
      upcoming (snd (connect_and_auth env args st)) = up \<and>
      stored_hash (snd (interactive_mode env args st)) = stored_hash st"
    if h: "truthy (account_hash st)" "upcoming st = Accepted srv # up"
      "fst (login_with_hash env (length (conns st))
      (st\<lparr>upcoming := up, conns := conns st @ [srv],
          trace := trace st @
            [Print (''Podklyuchenie k '' @ endpoint args @ ''...''), Connect,
             Opened (length (conns st)), Print ''Soedinenie ustanovleno'']\<rparr>)) =
      Inr True"
  proof -
    let ?st1 = "st\<lparr>upcoming := up, conns := conns st @ [srv],
          trace := trace st @
            [Print (''Podklyuchenie k '' @ endpoint args @ ''...''), Connect,
             Opened (length (conns st)), Print ''Soedinenie ustanovleno'']\<rparr>"
    obtain st' where l: "login_with_hash env (length (conns st)) ?st1 = (Inr True, st')"
      using h(3) by (cases "login_with_hash env (length (conns st)) ?st1") simp
    have c: "connect_and_auth env args st = (Inr (length (conns st)), st')"
      by (rule login_success_connect [OF h(1,2) l])
    have s: "stored_hash st' = stored_hash st"
      using 1 [of "length (conns st)" ?st1] l by simp
    have "keeps (\<lambda>s. upcoming s = up) (login_with_hash env (length (conns st)))"
      by (rule keeps_login) (simp add: tolerant_def rest_of_feed_def)
    then have u: "upcoming st' = up"
      using l by (auto simp add: keeps_def dest: spec [of _ ?st1])
    from c s u show ?thesis by (simp add: interactive_mode_hash)
  qed
  from 1 [of n st] 2 3 4 5 show ?thesis by blast
qed

text \<open>A login that succeeds, a registration whose account record is missing, and a
  refused connection: the file keeps what it held.\<close>

theorem hash_file_written_by_registration_only_witness:
  "fst (connect_and_auth sample_send_env sample_send_args
      (returning_session ''{\"nickname\": \"Bob\", \"account_hash\": \"abc\"}\<newline>'')) = Inr 0 \<and>
   stored_hash (snd (interactive_mode sample_send_env sample_send_args
      (returning_session ''{\"nickname\": \"Bob\", \"account_hash\": \"abc\"}\<newline>''))) = Some ''old'' \<and>
   stored_hash (snd (register_account sample_send_env sample_send_args 0
      (chatting\<lparr>stdin := [Typed ''bob'']\<rparr>))) = Some ''abc'' \<and>
   stored_hash (snd (interactive_mode sample_send_env sample_send_args
      ((returning_session ''x'')\<lparr>upcoming := [Refused (Exn ConnectionRefusedError ''refused'')]\<rparr>))) =
     Some ''old''"
  using hash_file_written_by_registration_only [where env = sample_send_env and args = sample_send_args
      and st = "returning_session ''{\"nickname\": \"Bob\", \"account_hash\": \"abc\"}\<newline>''"
      and srv = "\<lparr>feed = [Line ''Hello\<newline>'',
                         Line ''{\"nickname\": \"Bob\", \"account_hash\": \"abc\"}\<newline>''],
                 eof_closes = False\<rparr>"
      and up = "[Accepted \<lparr>feed = [Line ''Hello\<newline>'', Line ''Enter nick\<newline>'',
                          Line ''{\"nickname\": \"Bob\", \"account_hash\": \"abc\"}\<newline>'',
                          Line ''Welcome\<newline>''],
                  eof_closes = False\<rparr>]"]
    hash_file_written_by_registration_only [where env = sample_send_env and args = sample_send_args
      and st = "chatting\<lparr>stdin := [Typed ''bob'']\<rparr>" and n = 0
      and e = "Exn JSONDecodeError ''Expecting value''"]
    hash_file_written_by_registration_only [where env = sample_send_env and args = sample_send_args
      and st = "(returning_session ''x'')\<lparr>upcoming := [Refused (Exn ConnectionRefusedError ''refused'')]\<rparr>"
      and e = "Exn ConnectionRefusedError ''refused''"]
    failing_registration refused_connection
  by (simp add: returning_session_def sender_start_def sample_send_env_def sample_loads_def
      login_with_hash_def sender_steps emit_def chatting_def
      is_closing_def truthy_def py_str_def strip_def lstrip_def rstrip_def isspace_def)

section \<open>Start-up of both scripts\<close>

lemma parse_arguments_missing:
  assumes "(flag_host argv = None \<and> getenv ''MINECHAT_HOST'' = None) \<or>
           (flag_port argv = None \<and> getenv ''MINECHAT_PORT'' = None) \<or>
           (flag_file argv = None \<and> getenv ''MINECHAT_HISTORY'' = None)"
  shows "\<exists>err. parse_arguments to_int getenv argv = Inl err"
  using assms
  by (auto simp add: parse_arguments_def Let_def getenv_default_def int_default_def
      parse_port_def split: sum.splits option.splits)

lemma parse_arguments_sender_missing:
  assumes "(flag_host argv = None \<and> getenv ''MINECHAT_HOST_WRITER'' = None) \<or>
           (flag_port argv = None \<and> getenv ''MINECHAT_PORT'' = None) \<or>
           (flag_file argv = None \<and> getenv ''MINECHAT_HASH'' = None)"
  shows "\<exists>err. parse_arguments_sender to_int getenv argv = Inl err"
  using assms
  by (auto simp add: parse_arguments_sender_def Let_def getenv_default_def int_default_def
      parse_port_def split: sum.splits option.splits)

lemma parse_arguments_flags:
  assumes "parse_arguments to_int getenv argv = Inr args"
  shows "(flag_host argv = Some h \<longrightarrow> host args = h) \<and>
         (flag_port argv = Some p \<longrightarrow> to_int p = Some (port args)) \<and>
         (flag_file argv = Some f \<longrightarrow> history_path args = f)"
  using assms
  by (auto simp add: parse_arguments_def Let_def getenv_default_def int_default_def
      parse_port_def split: sum.splits option.splits if_splits)

lemma parse_arguments_sender_flags:
  assumes "parse_arguments_sender to_int getenv argv = Inr args"
  shows "(flag_host argv = Some h \<longrightarrow> host args = h) \<and>
         (flag_port argv = Some p \<longrightarrow> to_int p = Some (port args)) \<and>
         (flag_file argv = Some f \<longrightarrow> hash_file args = f)"
  using assms
  by (auto simp add: parse_arguments_sender_def Let_def getenv_default_def int_default_def
      parse_port_def split: sum.splits option.splits if_splits)

text \<open>
  Claim C7. When the host, the port or the file path is given neither by its flag nor
  by its environment variable (\<^verbatim>\<open>MINECHAT_HOST\<close>, \<^verbatim>\<open>MINECHAT_PORT\<close>,
  \<^verbatim>\<open>MINECHAT_HISTORY\<close> for the listener; \<^verbatim>\<open>MINECHAT_HOST_WRITER\<close>,
  \<^verbatim>\<open>MINECHAT_PORT\<close>, \<^verbatim>\<open>MINECHAT_HASH\<close> for the sender), the process exits with a
  status other than 0; the listener has done nothing at that point, and the sender has
  at most printed: no connect attempt, nothing read or sent, the hash file untouched.
  When the arguments are accepted, the value of a flag that was given is the value
  used, whatever the environment says.
\<close>

theorem missing_configuration_is_fatal:
  "((flag_host argv = None \<and> getenv ''MINECHAT_HOST'' = None) \<or>
    (flag_port argv = None \<and> getenv ''MINECHAT_PORT'' = None) \<or>
    (flag_file argv = None \<and> getenv ''MINECHAT_HISTORY'' = None) \<longrightarrow>
    (\<exists>code. main to_int getenv argv env script st = (Exit code, st) \<and> code \<noteq> 0)) \<and>
   ((flag_host argv = None \<and> getenv ''MINECHAT_HOST_WRITER'' = None) \<or>
    (flag_port argv = None \<and> getenv ''MINECHAT_PORT'' = None) \<or>
    (flag_file argv = None \<and> getenv ''MINECHAT_HASH'' = None) \<longrightarrow>
    (\<exists>code. fst (main_sender to_int getenv argv senv sst) = Exit code \<and> code \<noteq> 0) \<and>
    network (trace (snd (main_sender to_int getenv argv senv sst))) = network (trace sst) \<and>
    upcoming (snd (main_sender to_int getenv argv senv sst)) = upcoming sst \<and>
    stored_hash (snd (main_sender to_int getenv argv senv sst)) = stored_hash sst) \<and>
   (parse_arguments to_int getenv argv = Inr args \<longrightarrow>
      (flag_host argv = Some h \<longrightarrow> host args = h) \<and>
      (flag_port argv = Some p \<longrightarrow> to_int p = Some (port args)) \<and>
      (flag_file argv = Some f \<longrightarrow> history_path args = f)) \<and>
   (parse_arguments_sender to_int getenv argv = Inr sargs \<longrightarrow>
      (flag_host argv = Some h \<longrightarrow> host sargs = h) \<and>
      (flag_port argv = Some p \<longrightarrow> to_int p = Some (port sargs)) \<and>
      (flag_file argv = Some f \<longrightarrow> hash_file sargs = f))"
proof -
  have 1: "\<exists>code. main to_int getenv argv env script st = (Exit code, st) \<and> code \<noteq> 0"
    if "(flag_host argv = None \<and> getenv ''MINECHAT_HOST'' = None) \<or>
    (flag_port argv = None \<and> getenv ''MINECHAT_PORT'' = None) \<or>
    (flag_file argv = None \<and> getenv ''MINECHAT_HISTORY'' = None)"
  proof -
    from parse_arguments_missing [OF that, of to_int] obtain err
      where "parse_arguments to_int getenv argv = Inl err" by blast
    then show ?thesis
      by (simp add: main_def exit_status_def split: startup_error.splits)
  qed
  have 2: "(\<exists>code. fst (main_sender to_int getenv argv senv sst) = Exit code \<and> code \<noteq> 0) \<and>
    network (trace (snd (main_sender to_int getenv argv senv sst))) = network (trace sst) \<and>
    upcoming (snd (main_sender to_int getenv argv senv sst)) = upcoming sst \<and>
    stored_hash (snd (main_sender to_int getenv argv senv sst)) = stored_hash sst"
    if "(flag_host argv = None \<and> getenv ''MINECHAT_HOST_WRITER'' = None) \<or>
    (flag_port argv = None \<and> getenv ''MINECHAT_PORT'' = None) \<or>
    (flag_file argv = None \<and> getenv ''MINECHAT_HASH'' = None)"
  proof -
    from parse_arguments_sender_missing [OF that, of to_int] obtain err
      where "parse_arguments_sender to_int getenv argv = Inl err" by blast
    then show ?thesis
      by (cases err) (simp_all add: main_sender_def)
  qed
  from 1 2 parse_arguments_flags [of to_int getenv argv args h p f]
    parse_arguments_sender_flags [of to_int getenv argv sargs h p f]
  show ?thesis by blast
qed

theorem missing_configuration_is_fatal_witness:
  "main digits_only no_env \<lparr>flag_host = Some ''chat.example'', flag_port = Some ''5000'', flag_file = None\<rparr>
     sample_env [] (start None) = (Exit 2, start None) \<and>
   fst (main_sender digits_only no_env
     \<lparr>flag_host = None, flag_port = Some ''5000'', flag_file = Some ''account.hash''\<rparr>
     sample_send_env fresh_session) = Exit 2 \<and>
   network (trace (snd (main_sender digits_only no_env
     \<lparr>flag_host = None, flag_port = Some ''5000'', flag_file = Some ''account.hash''\<rparr>
     sample_send_env fresh_session))) = [] \<and>
   parse_arguments digits_only (\<lambda>name. if name = ''MINECHAT_PORT'' then None else Some ''other'')
     \<lparr>flag_host = Some ''chat.example'', flag_port = Some ''5000'', flag_file = Some ''chat.txt''\<rparr> =
     Inr \<lparr>host = ''chat.example'', port = 5000, history_path = ''chat.txt''\<rparr> \<and>
   parse_arguments_sender digits_only (\<lambda>name. if name = ''MINECHAT_PORT'' then None else Some ''other'')
     \<lparr>flag_host = Some ''chat.example'', flag_port = Some ''5000'', flag_file = Some ''account.hash''\<rparr> =
     Inr \<lparr>host = ''chat.example'', port = 5000, hash_file = ''account.hash''\<rparr>"
  using missing_configuration_is_fatal [where to_int = digits_only and getenv = no_env
      and argv = "\<lparr>flag_host = Some ''chat.example'', flag_port = Some ''5000'', flag_file = None\<rparr>"
      and env = sample_env and script = "[]" and st = "start None"]
    missing_configuration_is_fatal [where to_int = digits_only and getenv = no_env
      and argv = "\<lparr>flag_host = None, flag_port = Some ''5000'', flag_file = Some ''account.hash''\<rparr>"
      and senv = sample_send_env and sst = fresh_session]
    missing_configuration_is_fatal [where to_int = digits_only
      and getenv = "\<lambda>name. if name = ''MINECHAT_PORT'' then None else Some ''other''"
      and argv = "\<lparr>flag_host = Some ''chat.example'', flag_port = Some ''5000'', flag_file = Some ''chat.txt''\<rparr>"
      and args = "\<lparr>host = ''chat.example'', port = 5000, history_path = ''chat.txt''\<rparr>"
      and h = "''chat.example''" and p = "''5000''" and f = "''chat.txt''"]
    missing_configuration_is_fatal [where to_int = digits_only
      and getenv = "\<lambda>name. if name = ''MINECHAT_PORT'' then None else Some ''other''"
      and argv = "\<lparr>flag_host = Some ''chat.example'', flag_port = Some ''5000'', flag_file = Some ''account.hash''\<rparr>"
      and sargs = "\<lparr>host = ''chat.example'', port = 5000, hash_file = ''account.hash''\<rparr>"
      and h = "''chat.example''" and p = "''5000''" and f = "''account.hash''"]
  by (simp add: no_env_def main_def main_sender_def parse_arguments_def parse_arguments_sender_def
      getenv_default_def int_default_def parse_port_def digits_only_def exit_status_def
      fresh_session_def sender_start_def Let_def)

section \<open>Transports in both scripts\<close>

lemma opened_ids_append: "opened_ids (xs @ ys) = opened_ids xs @ opened_ids ys"
  by (induction xs rule: opened_ids.induct) simp_all

lemma is_closing_snoc:
  "is_closing (tr @ [e]) n = (is_closing tr n \<or> e = Closed n \<or> e = Lost n)"
  by (auto simp add: is_closing_def)

lemma scoped_from_snoc:
  "scoped_from p (xs @ [e]) =
     (scoped_from p xs \<and> (if e = Connect then open_now (p @ xs) = [] else True) \<and>
      length (open_now (p @ xs @ [e])) \<le> 1)"
  by (induction xs arbitrary: p) auto

lemma scoped_snoc:
  "scoped (tr @ [e]) =
     (scoped tr \<and> (if e = Connect then open_now tr = [] else True) \<and>
      length (open_now (tr @ [e])) \<le> 1)"
  using scoped_from_snoc [of "[]" tr e] by (simp add: scoped_def)

lemma scoped_imp_length: "scoped tr \<Longrightarrow> length (open_now tr) \<le> 1"
proof (cases tr rule: rev_cases)
  case Nil
  then show "scoped tr \<Longrightarrow> ?thesis" by (simp add: scoped_def)
next
  case (snoc xs e)
  then show "scoped tr \<Longrightarrow> ?thesis" by (simp add: scoped_snoc)
qed

lemma open_now_quiet: "quiet e \<Longrightarrow> open_now (tr @ [e]) = open_now tr"
  by (cases e) (simp_all add: open_now_def opened_ids_append is_closing_snoc)

lemma open_now_connect: "open_now (tr @ [Connect]) = open_now tr"
  by (simp add: open_now_def opened_ids_append is_closing_snoc)

lemma open_now_gone:
  "e = Closed n \<or> e = Lost n \<Longrightarrow> open_now (tr @ [e]) = filter (\<lambda>m. m \<noteq> n) (open_now tr)"
  by (auto simp add: open_now_def opened_ids_append is_closing_snoc intro: filter_cong)

lemma open_now_opened:
  "open_now (tr @ [Opened n]) = open_now tr @ (if is_closing tr n then [] else [n])"
  by (simp add: open_now_def opened_ids_append is_closing_snoc)

lemma one_open_empty: "network tr = [] \<Longrightarrow> one_open None b tr"
proof (induction tr rule: rev_induct)
  case Nil
  then show ?case by (simp add: one_open_def scoped_def open_now_def)
next
  case (snoc e tr)
  then have p: "is_Print e" and n: "network tr = []" by (auto split: if_splits)
  from p have q: "quiet e" by (cases e) simp_all
  from p have c: "e \<noteq> Connect" by (cases e) simp_all
  from p have o: "opened_ids [e] = []" by (cases e) simp_all
  from snoc.IH [OF n] q c o show ?case
    by (simp add: one_open_def scoped_snoc open_now_quiet opened_ids_append)
qed

lemma one_open_quiet: "one_open w b tr \<Longrightarrow> quiet e \<Longrightarrow> one_open w b (tr @ [e])"
proof -
  assume a: "one_open w b tr" and q: "quiet e"
  from q have c: "e \<noteq> Connect" by (cases e) simp_all
  from q have o: "opened_ids [e] = []" by (cases e) simp_all
  from a have l: "length (open_now tr) \<le> Suc 0"
    by (simp add: one_open_def scoped_imp_length [simplified])
  from a q c o l show ?thesis
    by (simp add: one_open_def scoped_snoc open_now_quiet opened_ids_append)
qed

lemma length_filter_le1: "length xs \<le> Suc 0 \<Longrightarrow> length (filter P xs) \<le> Suc 0"
  by (meson le_trans length_filter_le)

lemma one_open_gone:
  assumes "one_open w b tr" "e = Closed n \<or> e = Lost n"
  shows "one_open w b (tr @ [e])"
proof -
  from assms(2) have c: "e \<noteq> Connect" and o: "opened_ids [e] = []" by auto
  from assms(1) have l: "length (open_now tr) \<le> Suc 0" by (simp add: one_open_def scoped_imp_length [simplified])
  from assms c o l show ?thesis
    by (auto simp add: one_open_def scoped_snoc open_now_gone opened_ids_append length_filter_le1)
qed

lemma one_open_released:
  assumes "one_open (Some n) b tr" "e = Closed n \<or> e = Lost n"
  shows "one_open None b (tr @ [e])"
proof -
  from one_open_gone [OF assms] have a: "one_open (Some n) b (tr @ [e])" .
  from assms have "set (open_now (tr @ [e])) \<subseteq> {}"
    by (auto simp add: one_open_def open_now_gone)
  with a show ?thesis by (simp add: one_open_def)
qed

lemma one_open_closing:
  assumes "one_open (Some n) b tr" "is_closing tr n"
  shows "one_open None b tr"
proof -
  from assms(2) have "n \<notin> set (open_now tr)" by (simp add: open_now_def)
  moreover from assms(1) have "set (open_now tr) \<subseteq> {n}" by (simp add: one_open_def)
  ultimately have "open_now tr = []" by (cases "open_now tr") auto
  with assms(1) show ?thesis by (simp add: one_open_def)
qed

lemma one_open_weaken: "one_open None b tr \<Longrightarrow> one_open w b tr"
  by (simp add: one_open_def)

lemma one_open_connect: "one_open None b tr \<Longrightarrow> one_open None b (tr @ [Connect])"
  by (simp add: one_open_def scoped_snoc open_now_connect opened_ids_append)

lemma one_open_opened:
  assumes "one_open None b tr"
  shows "one_open (Some b) (Suc b) (tr @ [Opened b])"
proof -
  from assms have e: "open_now tr = []" and f: "b \<notin> set (opened_ids tr)"
    and s: "scoped tr" and d: "distinct (opened_ids tr)"
    and lt: "\<forall>n\<in>set (opened_ids tr). n < b"
    by (auto simp add: one_open_def)
  from lt have "\<forall>n\<in>set (opened_ids tr). n < Suc b" by auto
  with e f s d show ?thesis
    by (simp add: one_open_def scoped_snoc open_now_opened opened_ids_append)
qed

lemma listening_emit_quiet: "listening w st \<Longrightarrow> quiet e \<Longrightarrow> listening w (emit e st)"
  by (simp add: listening_def one_open_quiet)

lemma listening_fields [simp]:
  "listening w (st\<lparr>ticks := k\<rparr>) = listening w st"
  "listening w (st\<lparr>history := h\<rparr>) = listening w st"
  by (simp_all add: listening_def)

lemma listening_log: "listening w st \<Longrightarrow> listening w (log_message env m st)"
  by (simp add: log_message_def Let_def listening_emit_quiet split: option.splits)

lemma listening_eos: "listening w st \<Longrightarrow> listening w (end_of_stream n b st)"
  by (simp add: listening_def end_of_stream_def one_open_gone)

lemma listening_read_loop:
  "listening w st \<Longrightarrow> listening w (snd (read_loop env n eofc items k st))"
proof (induction items arbitrary: k st)
  case Nil
  then show ?case by (simp add: listening_eos)
next
  case (Cons i items)
  show ?case
  proof (cases i)
    case (Raises e lost)
    with Cons.prems show ?thesis by (simp add: listening_def one_open_gone)
  next
    case (Line l)
    have a: "listening w (emit (Recv n l) st)"
      using Cons.prems by (simp add: listening_emit_quiet)
    have b: "listening w (log_message env m (emit (Recv n l) st))" for m
      using a by (rule listening_log)
    from Cons.IH [OF a] Cons.IH [OF b] Line Cons.prems show ?thesis
      by (simp add: Let_def listening_eos)
  qed
qed

lemma held_try_body: "listening None st \<Longrightarrow> held (snd (try_body env args c st))"
proof (cases c)
  case (Refused e)
  assume "listening None st"
  then have "listening None (emit Connect (log_message env (connecting_msg args) st))"
    using listening_log [of None st env "connecting_msg args"]
    by (simp add: listening_def one_open_connect)
  with Refused show ?thesis by (simp add: try_body_def Let_def held_def)
next
  case (Accepted srv)
  assume "listening None st"
  then have 2: "listening None (emit Connect (log_message env (connecting_msg args) st))"
    using listening_log [of None st env "connecting_msg args"]
    by (simp add: listening_def one_open_connect)
  let ?st3 = "(emit (Opened (opened st)) (emit Connect (log_message env (connecting_msg args) st)))
                \<lparr>writer := Some (opened st), opened := Suc (opened st)\<rparr>"
  have 3: "listening (Some (opened st)) ?st3"
    using 2 one_open_opened [of "opened st" "trace (emit Connect (log_message env (connecting_msg args) st))"]
    by (simp add: listening_def)
  let ?st4 = "log_message env (established_msg args) ?st3"
  have 4: "listening (Some (opened st)) ?st4" using 3 by (rule listening_log)
  obtain r st5 where rl: "read_loop env (opened st) (eof_closes srv) (feed srv) 0 ?st4 = (r, st5)"
    by force
  have w5: "writer st5 = Some (opened st)"
  proof -
    have "writer (snd (read_loop env n eofc items k s)) = writer s" for n eofc items k s
    proof (induction items arbitrary: k s)
      case (Cons i items)
      then show ?case by (cases i) (simp_all add: Let_def)
    qed simp
    from this [of "opened st" "eof_closes srv" "feed srv" 0 ?st4] rl show ?thesis by simp
  qed
  have 5: "listening (Some (opened st)) st5"
    using listening_read_loop [OF 4, of env "opened st" "eof_closes srv" "feed srv" 0] rl by simp
  have 6: "listening (Some (opened st)) (log_message env closed_without_data_msg st5)"
    using 5 by (rule listening_log)
  from Accepted rl w5 5 6 show ?thesis
    by (auto simp add: try_body_def Let_def held_def split: sum.splits)
qed

lemma held_log: "held st \<Longrightarrow> held (log_message env m st)"
  by (auto simp add: held_def listening_log)

lemma held_retry: "held st \<Longrightarrow> held (snd (retry_after_delay env m st))"
  by (auto simp add: held_def retry_after_delay_def listening_log listening_emit_quiet)

lemma held_except: "held st \<Longrightarrow> held (snd (except_clauses env args e st))"
  by (simp add: except_clauses_def held_retry held_log split: option.splits)

lemma listening_finally: "held st \<Longrightarrow> listening None (finally_clause env st)"
proof -
  assume h: "held st"
  show ?thesis
  proof (cases "writer st")
    case None
    with h show ?thesis by (simp add: held_def finally_clause_def)
  next
    case (Some m)
    show ?thesis
    proof (cases "is_closing (trace st) m")
      case True
      with h Some show ?thesis
        by (auto simp add: held_def finally_clause_def listening_def one_open_closing)
    next
      case False
      from h Some have "listening None st \<or> listening (Some m) st" by (auto simp add: held_def)
      then have "listening (Some m) st" by (auto simp add: listening_def one_open_weaken)
      then have "listening (Some m) (log_message env closing_msg st)" by (rule listening_log)
      then have "listening None (emit (Closed m) (log_message env closing_msg st))"
        by (simp add: listening_def one_open_released)
      then show ?thesis using Some False
        by (simp add: finally_clause_def)
    qed
  qed
qed

lemma listening_session: "listening None st \<Longrightarrow> listening None (snd (session env args c st))"
proof -
  assume a: "listening None st"
  obtain r st1 where tb: "try_body env args c st = (r, st1)" by force
  from held_try_body [OF a, of env args c] tb have h1: "held st1" by simp
  show ?thesis
  proof (cases r)
    case (Inr u)
    with tb listening_finally [OF h1] show ?thesis by (simp add: session_def)
  next
    case (Inl e)
    obtain fl st2 where ex: "except_clauses env args e st1 = (fl, st2)" by force
    from held_except [OF h1, of env args e] ex have "held st2" by simp
    from listening_finally [OF this] Inl tb ex show ?thesis by (simp add: session_def)
  qed
qed

lemma listening_loop:
  "listening None st \<Longrightarrow> listening None (snd (minechat_loop env args script st))"
proof (induction script arbitrary: st)
  case Nil
  then show ?case by simp
next
  case (Cons c cs)
  obtain fl st1 where s: "session env args c st = (fl, st1)" by force
  from listening_session [OF Cons.prems, of env args c] s have 1: "listening None st1" by simp
  from Cons.IH [OF 1] s 1 show ?case by (cases fl) simp_all
qed

lemma listening_client:
  assumes "network (trace st) = []"
  shows "listening None (snd (minechat_client env args script st))"
proof -
  from one_open_empty [OF assms] have a: "listening None (st\<lparr>writer := None\<rparr>)"
    by (simp add: listening_def)
  show ?thesis
  proof (cases "history st = None \<and> create_fails env \<noteq> None")
    case True
    with a show ?thesis
      by (auto simp add: minechat_client_def ensure_log_file_def listening_def)
  next
    case False
    from a have b: "listening None (st\<lparr>history := Some [], writer := None\<rparr>)"
      by (simp add: listening_def)
    from False listening_loop [OF a, of env args script] listening_loop [OF b, of env args script]
    show ?thesis
      by (auto simp add: minechat_client_def ensure_log_file_def split: option.splits)
  qed
qed

lemma ensures_and_then:
  assumes "ensures P m (\<lambda>r s. case r of Inl e \<Rightarrow> Q (Inl e) s | Inr x \<Rightarrow> R x s)"
    and "\<And>x. ensures (R x) (f x) Q"
  shows "ensures P (and_then m f) Q"
  unfolding ensures_def
proof (intro allI impI)
  fix st assume P: "P st"
  obtain a st1 where m: "m st = (a, st1)" by force
  show "Q (fst (and_then m f st)) (snd (and_then m f st))"
  proof (cases a)
    case (Inl e)
    with assms(1) P m show ?thesis by (auto simp add: ensures_def and_then_def)
  next
    case (Inr x)
    with assms(1) P m have "R x st1" by (auto simp add: ensures_def)
    with assms(2) [of x] Inr m show ?thesis by (simp add: ensures_def and_then_def)
  qed
qed

lemma ensures_keeps:
  "keeps P m \<Longrightarrow> (\<And>e s. P s \<Longrightarrow> Q (Inl e) s) \<Longrightarrow>
   ensures P m (\<lambda>r s. case r of Inl e \<Rightarrow> Q (Inl e) s | Inr x \<Rightarrow> P s)"
  by (auto simp add: keeps_def ensures_def split: sum.splits)

lemma tolerant_sending: "tolerant n (sending w)"
  by (simp add: tolerant_def sending_def rest_of_feed_def one_open_quiet one_open_gone)

lemma sending_fails: "sending w s \<Longrightarrow> connected (Inl e) s"
  by (auto simp add: connected_def)

lemma ensures_open_connection:
  "ensures (sending None) open_connection
     (\<lambda>r s. case r of Inl e \<Rightarrow> connected (Inl e) s | Inr n \<Rightarrow> sending (Some n) s)"
proof -
  have "case fst (open_connection st) of Inl e \<Rightarrow> connected (Inl e) (snd (open_connection st))
        | Inr n \<Rightarrow> sending (Some n) (snd (open_connection st))"
    if a: "sending None st" for st
  proof -
    from a have c: "one_open None (length (conns st)) (trace st @ [Connect])"
      by (simp add: sending_def one_open_connect)
    from one_open_opened [OF c]
    have o: "one_open (Some (length (conns st))) (Suc (length (conns st)))
               (trace st @ [Connect, Opened (length (conns st))])" by simp
    from c o show ?thesis
      by (auto simp add: open_connection_def Let_def connected_def sending_def
          split: list.splits connect_result.splits)
  qed
  then show ?thesis by (simp add: ensures_def)
qed

lemma ensures_close:
  "ensures (sending (Some n)) (close n)
     (\<lambda>r s. case r of Inl e \<Rightarrow> connected (Inl e) s | Inr _ \<Rightarrow> sending None s)"
  by (simp add: ensures_def close_def sending_def one_open_released)

lemma ensures_return: "ensures (sending (Some n)) (return n) connected"
  by (simp add: ensures_def return_def connected_def)

lemma keeps_login_or_not_sending:
  "keeps (sending w) (\<lambda>st. if truthy (account_hash st) then login_with_hash env n st
                     else (Inr False, st))"
  using keeps_login [OF tolerant_sending [of n w], where env = env]
  by (simp add: keeps_def)

lemma keeps_assign_sending:
  "keeps (sending w) (\<lambda>st. (Inr (), st\<lparr>account_hash := Some h, nickname := Some k\<rparr>))"
  by (simp add: keeps_def sending_def)

lemma ensures_branch: "ensures (sending None) (registration_branch env args) connected"
  unfolding registration_branch_def
proof (rule ensures_and_then [OF ensures_open_connection])
  fix n'
  have r: "keeps (sending (Some n')) (register_account env args n')"
    by (rule keeps_register [OF tolerant_sending]) (simp add: sending_def)
  show "ensures (sending (Some n'))
     (and_then (register_account env args n') (\<lambda>(h, nickname').
       and_then (\<lambda>st. (Inr (), st\<lparr>account_hash := Some h, nickname := Some nickname'\<rparr>)) (\<lambda>_.
       return n'))) connected"
  proof (rule ensures_and_then [OF ensures_keeps [OF r]])
    show "connected (Inl e) s" if "sending (Some n') s" for e s
      using that by (rule sending_fails)
  next
    fix x :: "json \<times> json"
    obtain h k where x: "x = (h, k)" by (cases x)
    show "ensures (sending (Some n'))
       (case x of (h, nickname') \<Rightarrow>
          and_then (\<lambda>st. (Inr (), st\<lparr>account_hash := Some h, nickname := Some nickname'\<rparr>)) (\<lambda>_.
          return n')) connected"
      unfolding x prod.case
    proof (rule ensures_and_then [OF ensures_keeps [OF keeps_assign_sending]])
      show "connected (Inl e) s" if "sending (Some n') s" for e s
        using that by (rule sending_fails)
    next
      show "ensures (sending (Some n')) (return n') connected" for u :: unit
        by (rule ensures_return)
    qed
  qed
qed

lemma ensures_connect: "ensures (sending None) (connect_and_auth env args) connected"
  unfolding connect_and_auth_alt
proof (rule ensures_and_then [OF ensures_keeps [OF keeps_print [OF tolerant_sending]]])
  show "connected (Inl e) s" if "sending None s" for e s
    using that by (rule sending_fails)
next
  fix u :: unit
  show "ensures (sending None)
     (and_then open_connection (\<lambda>n.
     and_then (print ''Soedinenie ustanovleno'') (\<lambda>_.
     and_then (\<lambda>st. if truthy (account_hash st) then login_with_hash env n st
                     else (Inr False, st)) (\<lambda>authorised.
       if authorised then return n
       else
         and_then (close n) (\<lambda>_.
         and_then (print ''Perepodklyuchenie dlya registratsii...'') (\<lambda>_.
         registration_branch env args)))))) connected"
  proof (rule ensures_and_then [OF ensures_open_connection])
    fix n
    show "ensures (sending (Some n))
     (and_then (print ''Soedinenie ustanovleno'') (\<lambda>_.
     and_then (\<lambda>st. if truthy (account_hash st) then login_with_hash env n st
                     else (Inr False, st)) (\<lambda>authorised.
       if authorised then return n
       else
         and_then (close n) (\<lambda>_.
         and_then (print ''Perepodklyuchenie dlya registratsii...'') (\<lambda>_.
         registration_branch env args))))) connected"
    proof (rule ensures_and_then [OF ensures_keeps [OF keeps_print [OF tolerant_sending]]])
      show "connected (Inl e) s" if "sending (Some n) s" for e s
        using that by (rule sending_fails)
    next
      fix u :: unit
      show "ensures (sending (Some n))
         (and_then (\<lambda>st. if truthy (account_hash st) then login_with_hash env n st
                     else (Inr False, st)) (\<lambda>authorised.
           if authorised then return n
           else
             and_then (close n) (\<lambda>_.
             and_then (print ''Perepodklyuchenie dlya registratsii...'') (\<lambda>_.
             registration_branch env args)))) connected"
      proof (rule ensures_and_then [OF ensures_keeps [OF keeps_login_or_not_sending]])
        show "connected (Inl e) s" if "sending (Some n) s" for e s
          using that by (rule sending_fails)
      next
        fix authorised :: bool
        have "ensures (sending (Some n))
             (and_then (close n) (\<lambda>_.
             and_then (print ''Perepodklyuchenie dlya registratsii...'') (\<lambda>_.
             registration_branch env args))) connected"
        proof (rule ensures_and_then [OF ensures_close])
          fix u :: unit
          show "ensures (sending None)
             (and_then (print ''Perepodklyuchenie dlya registratsii...'') (\<lambda>_.
             registration_branch env args)) connected"
          proof (rule ensures_and_then [OF ensures_keeps [OF keeps_print [OF tolerant_sending]]])
            show "connected (Inl e) s" if "sending None s" for e s
              using that by (rule sending_fails)
          next
            show "ensures (sending None) (registration_branch env args) connected" for u :: unit
              by (rule ensures_branch)
          qed
        qed
        then show "ensures (sending (Some n))
           (if authorised then return n
           else
             and_then (close n) (\<lambda>_.
             and_then (print ''Perepodklyuchenie dlya registratsii...'') (\<lambda>_.
             registration_branch env args))) connected"
          by (simp add: ensures_return)
      qed
    qed
  qed
qed

lemma sending_emit_quiet: "sending w st \<Longrightarrow> quiet e \<Longrightarrow> sending w (emit e st)"
  by (simp add: sending_def one_open_quiet)

lemma sending_mode_except: "sending w st \<Longrightarrow> sending w (snd (mode_except e st))"
  by (simp add: mode_except_def sending_emit_quiet)

lemma sending_mode_finally_none: "sending w st \<Longrightarrow> sending w (mode_finally None st)"
  by (simp add: mode_finally_def sending_emit_quiet)

lemma sending_mode_finally_some:
  assumes "sending (Some n) st"
  shows "sending None (mode_finally (Some n) st)"
proof (cases "is_closing (trace st) n")
  case True
  with assms have "sending None st" by (simp add: sending_def one_open_closing)
  with True show ?thesis by (simp add: mode_finally_def sending_emit_quiet)
next
  case False
  from assms have "sending None (emit (Closed n) st)"
    by (simp add: sending_def one_open_released)
  with False show ?thesis by (simp add: mode_finally_def sending_emit_quiet)
qed

lemma sending_interactive_mode:
  assumes "sending None st"
  shows "(\<exists>w. sending w (snd (interactive_mode env args st))) \<and>
         (fst (connect_and_auth env args st) = Inr n \<longrightarrow>
            sending None (snd (interactive_mode env args st)))"
proof -
  obtain r st1 where c: "connect_and_auth env args st = (r, st1)" by force
  from ensures_connect [of env args] assms c have q: "connected r st1"
    by (auto simp add: ensures_def)
  show ?thesis
  proof (cases r)
    case (Inl e)
    with q obtain w where "sending w st1" by (auto simp add: connected_def)
    then have "sending w (mode_finally None (snd (mode_except e st1)))"
      by (intro sending_mode_finally_none sending_mode_except)
    with c Inl show ?thesis
      by (auto simp add: interactive_mode_def case_prod_beta)
  next
    case (Inr m)
    with q have 1: "sending (Some m) st1" by (simp add: connected_def)
    obtain r2 st2 where w: "welcome_and_loop env m st1 = (r2, st2)" by force
    have 2: "sending (Some m) st2"
      using keepsD [OF keeps_welcome_and_loop [OF tolerant_sending] 1 w] .
    have a: "sending None (mode_finally (Some m) st2)"
      using 2 by (rule sending_mode_finally_some)
    have b: "sending None (mode_finally (Some m) (snd (mode_except e st2)))" for e
      using 2 by (intro sending_mode_finally_some sending_mode_except)
    have "sending None (snd (interactive_mode env args st))"
      using c Inr w a b by (cases r2) (simp_all add: interactive_mode_def case_prod_beta)
    then show ?thesis by blast
  qed
qed

lemma fresh_session_connects:
  "fst (connect_and_auth sample_send_env sample_send_args fresh_session) = Inr 1"
  by (simp add: connect_and_auth_def register_account_def save_hash_def sender_steps
      fresh_session_def sender_start_def sample_send_env_def sample_send_args_def
      sample_loads_def endpoint_def str_int_def digit_def
      is_closing_def truthy_def py_str_def strip_def lstrip_def rstrip_def isspace_def emit_def)

text \<open>
  Claim C3. In a run of either script that starts with nothing but printing behind it,
  at most one transport is open at any moment and no transport is open when a connect
  attempt is made. The listener has no transport open after any number of iterations
  of its loop, however each of them ended; the sender has none open after
  \<^verbatim>\<open>interactive_mode\<close> whenever \<^verbatim>\<open>connect_and_auth\<close> had returned, that is whenever
  the steady state was entered.
\<close>

theorem one_transport_at_a_time:
  "(network (trace st) = [] \<longrightarrow>
      scoped (trace (snd (minechat_client env args script st))) \<and>
      open_now (trace (snd (minechat_client env args script st))) = []) \<and>
   (network (trace sst) = [] \<longrightarrow>
      scoped (trace (snd (interactive_mode senv sargs sst))) \<and>
      (fst (connect_and_auth senv sargs sst) = Inr n \<longrightarrow>
         open_now (trace (snd (interactive_mode senv sargs sst))) = []))"
proof -
  have 1: "scoped (trace (snd (minechat_client env args script st))) \<and>
      open_now (trace (snd (minechat_client env args script st))) = []"
    if "network (trace st) = []"
    using listening_client [OF that, of env args script]
    by (simp add: listening_def one_open_def)
  have 2: "scoped (trace (snd (interactive_mode senv sargs sst))) \<and>
      (fst (connect_and_auth senv sargs sst) = Inr n \<longrightarrow>
         open_now (trace (snd (interactive_mode senv sargs sst))) = [])"
    if "network (trace sst) = []"
  proof -
    from one_open_empty [OF that] have "sending None sst" by (simp add: sending_def)
    from sending_interactive_mode [OF this, of senv sargs n] show ?thesis
      by (auto simp add: sending_def one_open_def)
  qed
  from 1 2 show ?thesis by blast
qed

text \<open>A listener whose first connection delivers a line and whose second attempt times
  out, and a sender that registers on its second connection.\<close>

theorem one_transport_at_a_time_witness:
  "scoped (trace (snd (minechat_client sample_env sample_args
      [Accepted \<lparr>feed = [Line ''hi\<newline>''], eof_closes = False\<rparr>,
       Refused (Exn AsyncioTimeoutError [])] (start None)))) \<and>
   open_now (trace (snd (minechat_client sample_env sample_args
      [Accepted \<lparr>feed = [Line ''hi\<newline>''], eof_closes = False\<rparr>,
       Refused (Exn AsyncioTimeoutError [])] (start None)))) = [] \<and>
   scoped (trace (snd (interactive_mode sample_send_env sample_send_args fresh_session))) \<and>
   fst (connect_and_auth sample_send_env sample_send_args fresh_session) = Inr 1 \<and>
   open_now (trace (snd (interactive_mode sample_send_env sample_send_args fresh_session))) = []"
  using one_transport_at_a_time [where st = "start None" and sst = fresh_session and env = sample_env
      and args = sample_args and senv = sample_send_env and sargs = sample_send_args and n = 1
      and script = "[Accepted \<lparr>feed = [Line ''hi\<newline>''], eof_closes = False\<rparr>,
       Refused (Exn AsyncioTimeoutError [])]"] fresh_session_connects
  by (simp add: start_def fresh_session_def sender_start_def)

text \<open>The predicate at work on four small traces.\<close>

lemma scoped_examples:
  "scoped [Connect, Opened 0, Recv 0 ''hi'', Closed 0, Connect, Opened 1, Lost 1]"
  "\<not> scoped [Connect, Opened 0, Connect]"
  "\<not> scoped [Connect, Opened 0, Opened 1]"
  "open_now [Connect, Opened 0, Recv 0 ''hi''] = [0]"
  by (simp_all add: scoped_def open_now_def is_closing_def)

end
